theory Spec2Isabelle
  imports Complex_Main "HOL-Library.Signed_Division"
begin

section \<open>Errors and checked array access\<close>

text \<open>
  \<^verbatim>\<open>Aux_Error\<close> terminates the whole run; it is modelled by \<open>Inl (Aux_Error m)\<close>,
  where \<open>m\<close> names the message. An access outside an array, a null pointer that is
  dereferenced, a division by zero, an oversized shift and a signed integer operation whose
  result does not fit its type are undefined in C++; they are modelled by \<open>Inl Undefined\<close>.
\<close>

datatype message =
    JustCountNPar_PredictPos
  | JustCountNPar_SibBufPatch
  | JustCountNPar_FaSibBufPatch
  | Initialized_Already
  | NonLeaf_Has_Particles
  | NPar_Negative
  | Offset_NParEachPatch_Max
  | Offset_PAR_POSZ_Max
  | ParTime_Negative
  | LBIdx_No_Match
  | SonPID_Missing
  | Incorrect_PID
  | RecvBuf_NPar_NonPositive
  | Not_Initialized
  | Inactive_Particle
  | Wrong_Home_Patch
  | Particle_Should_Not_Be_Here
  | Total_Number_Mismatch
  | ParMassPos_Copy_Not_Null
  | NPar_Copy_Not_Reset

datatype error = Aux_Error message | Undefined

definition ebind :: "error + 'a \<Rightarrow> ('a \<Rightarrow> error + 'b) \<Rightarrow> error + 'b" where
  "ebind m f = (case m of Inl e \<Rightarrow> Inl e | Inr x \<Rightarrow> f x)"

definition elem :: "'a list \<Rightarrow> int \<Rightarrow> error + 'a" where
  "elem xs i = (if 0 \<le> i \<and> i < int (length xs) then Inr (xs ! nat i) else Inl Undefined)"

definition fatal_if :: "bool \<Rightarrow> message \<Rightarrow> error + unit" where
  "fatal_if c m = (if c then Inl (Aux_Error m) else Inr ())"

text \<open>
  The arithmetic of the 32-bit \<^verbatim>\<open>int\<close>: the sum and the product are those of the integers
  when they fit, and undefined otherwise. The values themselves are integers of HOL.
\<close>

definition int32 :: "int \<Rightarrow> error + int" where
  "int32 x = (if - 2147483648 \<le> x \<and> x \<le> 2147483647 then Inr x else Inl Undefined)"

definition iadd :: "int \<Rightarrow> int \<Rightarrow> error + int" where
  "iadd a b = int32 (a + b)"

definition imul :: "int \<Rightarrow> int \<Rightarrow> error + int" where
  "imul a b = int32 (a * b)"

fun efold :: "('a \<Rightarrow> 's \<Rightarrow> error + 's) \<Rightarrow> 'a list \<Rightarrow> 's \<Rightarrow> error + 's" where
  "efold f [] s = Inr s"
| "efold f (x # xs) s = ebind (f x s) (efold f xs)"

fun emap :: "('a \<Rightarrow> error + 'b) \<Rightarrow> 'a list \<Rightarrow> error + 'b list" where
  "emap f [] = Inr []"
| "emap f (x # xs) = ebind (f x) (\<lambda>y. ebind (emap f xs) (\<lambda>ys. Inr (y # ys)))"

section \<open>Floating-point values\<close>

text \<open>
  A value of the type \<^verbatim>\<open>real\<close> (\<^verbatim>\<open>float\<close> or \<^verbatim>\<open>double\<close>, as configured) or \<^verbatim>\<open>double\<close>: a
  number, an infinity or a NaN. The routines only copy these values and compare them, a
  \<^verbatim>\<open>real\<close> with a \<^verbatim>\<open>double\<close> after the exact conversion; every comparison with a NaN is
  false. The two zeros compare equal and are one value here.
\<close>

datatype fl = NaN | NInf | Fin real | PInf

fun fl_less :: "fl \<Rightarrow> fl \<Rightarrow> bool" where
  "fl_less (Fin a) (Fin b) = (a < b)"
| "fl_less NInf (Fin b) = True"
| "fl_less NInf PInf = True"
| "fl_less (Fin a) PInf = True"
| "fl_less _ _ = False"

definition fl_ge :: "fl \<Rightarrow> fl \<Rightarrow> bool" where
  "fl_ge a b = (a \<noteq> NaN \<and> b \<noteq> NaN \<and> \<not> fl_less a b)"

section \<open>The data the routines work on\<close>

text \<open>A C array of four elements, indexed by the field slot.\<close>

datatype 'a arr4 = Arr4 'a 'a 'a 'a

fun get4 :: "'a arr4 \<Rightarrow> nat \<Rightarrow> 'a" where
  "get4 (Arr4 a b c d) v = (if v = 0 then a else if v = 1 then b else if v = 2 then c else d)"

fun set4 :: "'a arr4 \<Rightarrow> nat \<Rightarrow> 'a \<Rightarrow> 'a arr4" where
  "set4 (Arr4 a b c d) v x =
     (if v = 0 then Arr4 x b c d else if v = 1 then Arr4 a x c d
      else if v = 2 then Arr4 a b x d else Arr4 a b c x)"

fun map4 :: "('a \<Rightarrow> 'b) \<Rightarrow> 'a arr4 \<Rightarrow> 'b arr4" where
  "map4 f (Arr4 a b c d) = Arr4 (f a) (f b) (f c) (f d)"

fun all4 :: "('a \<Rightarrow> bool) \<Rightarrow> 'a arr4 \<Rightarrow> bool" where
  "all4 P (Arr4 a b c d) = (P a \<and> P b \<and> P c \<and> P d)"

text \<open>
  Modelled from the spec: the slot constants \<^verbatim>\<open>PAR_MASS\<close>, \<^verbatim>\<open>PAR_POSX\<close>, \<^verbatim>\<open>PAR_POSY\<close>,
  \<^verbatim>\<open>PAR_POSZ\<close> (macros of a header that is not part of the sources) are the four fixed
  slots mass, x, y, z, all below the per-particle field width \<^verbatim>\<open>NParVar = 4\<close>.
\<close>

definition PAR_MASS :: nat where "PAR_MASS = 0"
definition PAR_POSX :: nat where "PAR_POSX = 1"
definition PAR_POSY :: nat where "PAR_POSY = 2"
definition PAR_POSZ :: nat where "PAR_POSZ = 3"
definition NParVar :: nat where "NParVar = 4"

text \<open>
  A patch \<^verbatim>\<open>amr->patch[0][lv][PID]\<close>. A pointer \<^verbatim>\<open>ParMassPos_Copy[v]\<close> is \<open>None\<close> when
  null and \<open>Some xs\<close> when it owns the array \<open>xs\<close>. The integer fields hold integers of
  HOL; whatever the routines compute from them goes through the checked arithmetic.
\<close>

record patch_t =
  NPar :: int
  ParList :: "int list"
  son :: int
  LB_Idx :: int
  corner :: "int \<times> int \<times> int"
  EdgeL :: "fl \<times> fl \<times> fl"
  EdgeR :: "fl \<times> fl \<times> fl"
  NPar_Copy :: int
  ParMassPos_Copy :: "fl list option arr4"

datatype integ_t = PAR_INTEG_KDK | PAR_INTEG_EULER

text \<open>
  The particle repository \<^verbatim>\<open>amr->Par\<close>. \<^verbatim>\<open>Mass\<close>, \<^verbatim>\<open>PosX\<close>, \<^verbatim>\<open>PosY\<close>, \<^verbatim>\<open>PosZ\<close> are the
  rows \<^verbatim>\<open>ParVar[PAR_MASS]\<close>, ... of the attribute table. The lists \<^verbatim>\<open>R2B_Buff_*[lv][t]\<close>
  have \<open>t = 0\<close> for sibling-buffer patches at \<open>lv\<close> and \<open>t = 1\<close> for father-sibling-buffer
  patches at \<open>lv - 1\<close>; they are pairs indexed by \<open>lv\<close>.
\<close>

record particle_t =
  Mass :: "fl list"
  PosX :: "fl list"
  PosY :: "fl list"
  PosZ :: "fl list"
  Time :: "fl list"
  Integ :: integ_t
  NPar_Lv :: "int list"
  R2B_Buff_NPatchTotal :: "(int \<times> int) list"
  R2B_Buff_PIDList :: "(int list \<times> int list) list"

definition ParVar :: "particle_t \<Rightarrow> nat \<Rightarrow> fl list" where
  "ParVar P v = (if v = PAR_MASS then Mass P else if v = PAR_POSX then PosX P
                 else if v = PAR_POSY then PosY P else PosZ P)"

record LB_t =
  IdxList_Real :: "int list list"
  IdxList_Real_IdxTable :: "int list list"

text \<open>
  The state of one MPI rank. \<open>NPatchComma s ! lv\<close> is \<^verbatim>\<open>amr->NPatchComma[lv][1]\<close>, the
  number of real patches at level \<open>lv\<close> (they have the PIDs below it); \<open>num s ! lv\<close> is
  the number of all patches, real and buffer.
\<close>

record amr_t =
  patch :: "patch_t list list"
  NPatchComma :: "int list"
  num :: "int list"
  scale :: "int list"
  Par :: particle_t
  LB :: LB_t

definition get_patch :: "amr_t \<Rightarrow> int \<Rightarrow> int \<Rightarrow> error + patch_t" where
  "get_patch s lv PID = ebind (elem (patch s) lv) (\<lambda>ps. elem ps PID)"

definition upd_patch :: "(patch_t \<Rightarrow> patch_t) \<Rightarrow> int \<Rightarrow> int \<Rightarrow> amr_t \<Rightarrow> error + amr_t" where
  "upd_patch f lv PID s =
     ebind (get_patch s lv PID) (\<lambda>p.
       Inr (s\<lparr>patch := (patch s)[nat lv := (patch s ! nat lv)[nat PID := f p]]\<rparr>))"

definition fst_or_snd :: "nat \<Rightarrow> 'a \<times> 'a \<Rightarrow> 'a" where
  "fst_or_snd t p = (if t = 0 then fst p else snd p)"

section \<open>Par_LB_CollectParticle2OneLevel_FreeMemory\<close>

text \<open>
  The compile-time options and the routines of the repository that the two functions call
  but that are not part of the sources. \<open>DEBUG_PARTICLE\<close> selects the diagnostic build,
  \<open>HILBERT\<close> stands for \<^verbatim>\<open>LOAD_BALANCE == HILBERT\<close>; \<open>LONG_MAX\<close> is the largest value of the
  type \<^verbatim>\<open>long\<close> of the platform.
  \<open>Par_LB_CollectParticleFromRealPatch E lv FaLv t PredictPos TargetTime\<close> is the
  collective call for the buffer patches at \<open>lv\<close> with the lists \<^verbatim>\<open>R2B_*[FaLv][t]\<close>; it
  works on the states of all ranks.
\<close>

record env =
  DEBUG_PARTICLE :: bool
  HILBERT :: bool
  MAX_LEVEL :: int
  PS1 :: int
  LONG_MAX :: int
  LB_Corner2Index :: "int \<Rightarrow> int \<times> int \<times> int \<Rightarrow> error + int"
  LB_Index2Rank :: "int \<Rightarrow> int \<Rightarrow> error + int"
  Par_PredictPos :: "amr_t \<Rightarrow> int \<Rightarrow> fl \<times> fl \<times> fl \<Rightarrow> fl \<Rightarrow> fl \<times> fl \<times> fl"
  Par_LB_CollectParticleFromRealPatch ::
    "int \<Rightarrow> int \<Rightarrow> nat \<Rightarrow> bool \<Rightarrow> fl \<Rightarrow> amr_t list \<Rightarrow> error + amr_t list"

text \<open>Deleting the four arrays of a patch where they are allocated, and the reset.\<close>

definition free_patch :: "patch_t \<Rightarrow> patch_t" where
  "free_patch p =
     p\<lparr>ParMassPos_Copy := map4 (\<lambda>a. if a \<noteq> None then None else a) (ParMassPos_Copy p),
       NPar_Copy := - 1\<rparr>"

text \<open>Loop 2 and loop 3: the buffer patches at \<open>TLv\<close> listed in \<^verbatim>\<open>R2B_Buff_PIDList[lv][t]\<close>.\<close>

definition free_buffer :: "int \<Rightarrow> nat \<Rightarrow> int \<Rightarrow> amr_t \<Rightarrow> error + amr_t" where
  "free_buffer lv t TLv s =
     ebind (elem (R2B_Buff_NPatchTotal (Par s)) lv) (\<lambda>tot.
       efold (\<lambda>p s'.
           ebind (elem (R2B_Buff_PIDList (Par s')) lv) (\<lambda>lists.
           ebind (elem (fst_or_snd t lists) (int p)) (\<lambda>PID.
             upd_patch free_patch TLv PID s')))
         [0 ..< nat (fst_or_snd t tot)] s)"

text \<open>The diagnostic scan of one level: all patches, real and buffer.\<close>

definition patch_clean :: "patch_t \<Rightarrow> bool" where
  "patch_clean p = (NPar_Copy p = - 1 \<and> all4 (\<lambda>a. a = None) (ParMassPos_Copy p))"

definition check_patch_free :: "patch_t \<Rightarrow> error + unit" where
  "check_patch_free p =
     ebind (fatal_if (\<not> all4 (\<lambda>a. a = None) (ParMassPos_Copy p)) ParMassPos_Copy_Not_Null) (\<lambda>_.
       fatal_if (NPar_Copy p \<noteq> - 1) NPar_Copy_Not_Reset)"

definition check_level_free :: "amr_t \<Rightarrow> int \<Rightarrow> error + unit" where
  "check_level_free s TLv =
     ebind (elem (num s) TLv) (\<lambda>n.
       efold (\<lambda>PID _. ebind (get_patch s TLv (int PID)) check_patch_free) [0 ..< nat n] ())"

definition Par_LB_CollectParticle2OneLevel_FreeMemory ::
    "env \<Rightarrow> int \<Rightarrow> bool \<Rightarrow> bool \<Rightarrow> amr_t \<Rightarrow> error + amr_t" where
  "Par_LB_CollectParticle2OneLevel_FreeMemory E lv SibBufPatch FaSibBufPatch s =
     ebind (elem (NPatchComma s) lv) (\<lambda>n.
     ebind (efold (\<lambda>PID. upd_patch free_patch lv (int PID)) [0 ..< nat n] s) (\<lambda>s1.
     ebind (if SibBufPatch then free_buffer lv 0 lv s1 else Inr s1) (\<lambda>s2.
     ebind (if FaSibBufPatch \<and> lv - 1 \<ge> 0 then free_buffer lv 1 (lv - 1) s2 else Inr s2) (\<lambda>s3.
     ebind (if DEBUG_PARTICLE E
            then efold (\<lambda>TLv _. check_level_free s3 TLv)
                   (filter (\<lambda>TLv. TLv \<ge> 0) [lv, lv - 1]) ()
            else Inr ()) (\<lambda>_.
     Inr s3)))))"

section \<open>Par_LB_CollectParticle2OneLevel: the send buffers\<close>

text \<open>The real patches at one level: \<^verbatim>\<open>amr->patch[0][lv][PID]\<close> for \<^verbatim>\<open>PID < NPatchComma[lv][1]\<close>.\<close>

definition real_patches :: "amr_t \<Rightarrow> int \<Rightarrow> error + patch_t list" where
  "real_patches s lv =
     ebind (elem (NPatchComma s) lv) (\<lambda>n.
     ebind (elem (patch s) lv) (\<lambda>ps.
       if n \<le> int (length ps) then Inr (take (nat n) ps) else Inl Undefined))"

text \<open>
  The traversal \<^verbatim>\<open>for lv = FaLv+1 .. MAX_LEVEL, for PID < NPatchComma[lv][1]\<close> of both
  scans, as the list of the patches it visits with their levels. Neither scan writes to a
  patch.
\<close>

definition finer_patches :: "env \<Rightarrow> amr_t \<Rightarrow> int \<Rightarrow> error + (int \<times> patch_t) list" where
  "finer_patches E s FaLv =
     ebind (emap (\<lambda>lv. ebind (real_patches s lv) (\<lambda>ps. Inr (map (Pair lv) ps)))
              [FaLv + 1 .. MAX_LEVEL E])
       (\<lambda>pss. Inr (concat pss))"

text \<open>
  \<^verbatim>\<open>PatchScaleFaLv = PS1 * amr->scale[FaLv]\<close>, which the build without the Hilbert curve
  computes at the start of step 1.
\<close>

definition PatchScaleFaLv :: "env \<Rightarrow> amr_t \<Rightarrow> int \<Rightarrow> error + int" where
  "PatchScaleFaLv E s FaLv = ebind (elem (scale s) FaLv) (\<lambda>sc. imul (PS1 E) sc)"

text \<open>
  The ownership key at \<open>FaLv\<close> of a patch at \<open>lv\<close>. The Hilbert branch divides the
  \<^verbatim>\<open>long\<close> key by the \<^verbatim>\<open>int\<close> \<^verbatim>\<open>1 << (3*(lv-FaLv))\<close>, a truncating division; a shift
  by 31 bits or more is not defined for a 32-bit \<^verbatim>\<open>int\<close> (nor is a product \<^verbatim>\<open>3*(lv-FaLv)\<close>
  that leaves \<^verbatim>\<open>int\<close>, which is above 31). The other branch truncates the corner with the
  C remainder, which is not defined for the divisor 0 and for \<^verbatim>\<open>INT_MIN % -1\<close>, and calls
  \<^verbatim>\<open>LB_Corner2Index\<close>; the difference lies between 0 and the coordinate.
\<close>

definition irem :: "int \<Rightarrow> int \<Rightarrow> error + int" where
  "irem c m = (if m = 0 \<or> (c = - 2147483648 \<and> m = - 1) then Inl Undefined else Inr (c smod m))"

definition target_key :: "env \<Rightarrow> amr_t \<Rightarrow> int \<Rightarrow> int \<Rightarrow> patch_t \<Rightarrow> error + int" where
  "target_key E s FaLv lv p =
     (if HILBERT E then
        (if 3 * (lv - FaLv) < 0 \<or> 31 \<le> 3 * (lv - FaLv) then Inl Undefined
         else Inr (LB_Idx p sdiv 2 ^ nat (3 * (lv - FaLv))))
      else
        ebind (PatchScaleFaLv E s FaLv) (\<lambda>sc.
        case corner p of (cx, cy, cz) \<Rightarrow>
          ebind (irem cx sc) (\<lambda>rx.
          ebind (irem cy sc) (\<lambda>ry.
          ebind (irem cz sc) (\<lambda>rz.
            LB_Corner2Index E FaLv (cx - rx, cy - ry, cz - rz))))))"

definition target_rank :: "env \<Rightarrow> amr_t \<Rightarrow> int \<Rightarrow> int \<Rightarrow> patch_t \<Rightarrow> error + int \<times> int" where
  "target_rank E s FaLv lv p =
     ebind (target_key E s FaLv lv p) (\<lambda>LB_Idx'.
     ebind (LB_Index2Rank E FaLv LB_Idx') (\<lambda>TRank. Inr (LB_Idx', TRank)))"

text \<open>Step 1-1: one iteration of the counting scan.\<close>

definition count_patch ::
    "env \<Rightarrow> amr_t \<Rightarrow> int \<Rightarrow> int \<times> patch_t \<Rightarrow> int list \<times> int list \<Rightarrow> error + int list \<times> int list" where
  "count_patch E s FaLv lp c =
     (case lp of (lv, p) \<Rightarrow> case c of (NParForEachRank, NPatchForEachRank) \<Rightarrow>
      if NPar p = 0 then Inr c
      else
        ebind (fatal_if (DEBUG_PARTICLE E \<and> son p \<noteq> - 1) NonLeaf_Has_Particles) (\<lambda>_.
        ebind (fatal_if (DEBUG_PARTICLE E \<and> NPar p < 0) NPar_Negative) (\<lambda>_.
        ebind (target_rank E s FaLv lv p) (\<lambda>(LB_Idx', TRank).
        ebind (elem NParForEachRank TRank) (\<lambda>a.
        ebind (iadd a (NPar p)) (\<lambda>a'.
        ebind (elem NPatchForEachRank TRank) (\<lambda>b.
        ebind (iadd b 1) (\<lambda>b'.
          Inr (NParForEachRank[nat TRank := a'], NPatchForEachRank[nat TRank := b'])))))))))"

text \<open>Step 1-2: the totals, summed rank by rank from 0.\<close>

definition isum :: "int list \<Rightarrow> error + int" where
  "isum cs = efold (\<lambda>c total. iadd total c) cs 0"

text \<open>
  Step 1-3: the offset of rank 0 is 0, and that of rank \<open>r\<close> is the offset of rank \<open>r - 1\<close>
  plus the count of rank \<open>r - 1\<close>, times \<^verbatim>\<open>NParVar\<close> for the data. The functions take the
  offset of the first rank of the list and the counts from that rank on.
\<close>

fun patch_offsets :: "int \<Rightarrow> int list \<Rightarrow> error + int list" where
  "patch_offsets off [] = Inr []"
| "patch_offsets off [n] = Inr [off]"
| "patch_offsets off (n # m # ns) =
     ebind (iadd off n) (\<lambda>off'.
     ebind (patch_offsets off' (m # ns)) (\<lambda>os. Inr (off # os)))"

fun data_offsets :: "int \<Rightarrow> int list \<Rightarrow> error + int list" where
  "data_offsets off [] = Inr []"
| "data_offsets off [n] = Inr [off]"
| "data_offsets off (n # m # ns) =
     ebind (imul n (int NParVar)) (\<lambda>w.
     ebind (iadd off w) (\<lambda>off'.
     ebind (data_offsets off' (m # ns)) (\<lambda>os. Inr (off # os))))"

record sendbuf =
  SendBuf_NPatchEachRank :: "int list"
  SendBuf_NParEachPatch :: "int list"
  SendBuf_LBIdxEachPatch :: "int list"
  SendBuf_ParDataEachPatch :: "fl list"

record fill_state =
  Offset_NParEachPatch :: "int list"
  Offset_ParDataEachPatch :: "int list"
  Buf_NParEachPatch :: "int list"
  Buf_LBIdxEachPatch :: "int list"
  Buf_ParDataEachPatch :: "fl list"

definition put :: "'a list \<Rightarrow> int \<Rightarrow> 'a \<Rightarrow> error + 'a list" where
  "put xs i x = (if 0 \<le> i \<and> i < int (length xs) then Inr (xs[nat i := x]) else Inl Undefined)"

text \<open>Step 1-4, the loop over the particles of one patch: one iteration.\<close>

definition fill_particle ::
    "env \<Rightarrow> amr_t \<Rightarrow> bool \<Rightarrow> fl \<Rightarrow> int \<Rightarrow> int \<Rightarrow> fill_state \<Rightarrow> error + fill_state" where
  "fill_particle E s PredictPos TargetTime TRank ParID f =
     ebind (elem (Offset_ParDataEachPatch f) TRank) (\<lambda>off.
     ebind (elem (Mass (Par s)) ParID) (\<lambda>m.
     ebind (elem (PosX (Par s)) ParID) (\<lambda>x.
     ebind (elem (PosY (Par s)) ParID) (\<lambda>y.
     ebind (elem (PosZ (Par s)) ParID) (\<lambda>z.
     ebind (iadd off (int PAR_MASS)) (\<lambda>i0.
     ebind (put (Buf_ParDataEachPatch f) i0 m) (\<lambda>b1.
     ebind (iadd off (int PAR_POSX)) (\<lambda>i1.
     ebind (put b1 i1 x) (\<lambda>b2.
     ebind (iadd off (int PAR_POSY)) (\<lambda>i2.
     ebind (put b2 i2 y) (\<lambda>b3.
     ebind (iadd off (int PAR_POSZ)) (\<lambda>i3.
     ebind (put b3 i3 z) (\<lambda>b4.
     ebind (if PredictPos then
              ebind (if DEBUG_PARTICLE E
                     then ebind (elem (Time (Par s)) ParID)
                            (\<lambda>t. fatal_if (fl_less t (Fin 0)) ParTime_Negative)
                     else Inr ()) (\<lambda>_.
              case Par_PredictPos E s ParID (x, y, z) TargetTime of (x', y', z') \<Rightarrow>
                Inr (b4[nat i1 := x', nat i2 := y', nat i3 := z']))
            else Inr b4) (\<lambda>b5.
     ebind (iadd off (int NParVar)) (\<lambda>off'.
       Inr (f\<lparr>Buf_ParDataEachPatch := b5,
              Offset_ParDataEachPatch := (Offset_ParDataEachPatch f)[nat TRank := off']\<rparr>))))))))))))))))"

text \<open>Step 1-4: one iteration of the filling scan.\<close>

definition fill_patch ::
    "env \<Rightarrow> amr_t \<Rightarrow> int \<Rightarrow> bool \<Rightarrow> fl \<Rightarrow> bool \<Rightarrow> int \<Rightarrow> int \<Rightarrow>
     int \<times> patch_t \<Rightarrow> fill_state \<Rightarrow> error + fill_state" where
  "fill_patch E s FaLv PredictPos TargetTime JustCountNPar NSendPatchTotal NSendParTotal lp f =
     (case lp of (lv, p) \<Rightarrow>
      if NPar p = 0 then Inr f
      else
        ebind (target_rank E s FaLv lv p) (\<lambda>(LB_Idx', TRank).
        ebind (elem (Offset_NParEachPatch f) TRank) (\<lambda>off.
        ebind (if DEBUG_PARTICLE E then
                 ebind (fatal_if (off \<ge> NSendPatchTotal) Offset_NParEachPatch_Max) (\<lambda>_.
                 ebind (iadd off (int PAR_POSZ)) (\<lambda>a.
                 ebind (imul NSendParTotal (int NParVar)) (\<lambda>b.
                   fatal_if (a \<ge> b) Offset_PAR_POSZ_Max)))
               else Inr ()) (\<lambda>_.
        ebind (put (Buf_NParEachPatch f) off (NPar p)) (\<lambda>bn.
        ebind (put (Buf_LBIdxEachPatch f) off LB_Idx') (\<lambda>bl.
        ebind (if \<not> JustCountNPar
               then ebind (emap (\<lambda>q. elem (ParList p) (int q)) [0 ..< nat (NPar p)]) (\<lambda>ids.
                      efold (fill_particle E s PredictPos TargetTime TRank) ids
                        (f\<lparr>Buf_NParEachPatch := bn, Buf_LBIdxEachPatch := bl\<rparr>))
               else Inr (f\<lparr>Buf_NParEachPatch := bn, Buf_LBIdxEachPatch := bl\<rparr>)) (\<lambda>f'.
        ebind (iadd off 1) (\<lambda>off'.
          Inr (f'\<lparr>Offset_NParEachPatch := (Offset_NParEachPatch f')[nat TRank := off']\<rparr>)))))))))"

text \<open>
  Step 1 as a whole, on one rank of \<open>NRank\<close>. A \<^verbatim>\<open>new\<close> of a negative size is not defined.
  The data buffer is not allocated with \<open>JustCountNPar\<close>; it is the empty list then. The
  content of a new array is not specified; the model fills it with zeros.
\<close>

definition prepare_send ::
    "env \<Rightarrow> nat \<Rightarrow> int \<Rightarrow> bool \<Rightarrow> fl \<Rightarrow> bool \<Rightarrow> amr_t \<Rightarrow> error + sendbuf" where
  "prepare_send E NRank FaLv PredictPos TargetTime JustCountNPar s =
     ebind (if HILBERT E then Inr 0 else PatchScaleFaLv E s FaLv) (\<lambda>_.
     ebind (finer_patches E s FaLv) (\<lambda>scan.
     ebind (efold (count_patch E s FaLv) scan (replicate NRank 0, replicate NRank 0))
       (\<lambda>(NParForEachRank, NPatchForEachRank).
     ebind (isum NPatchForEachRank) (\<lambda>NSendPatchTotal.
     ebind (isum NParForEachRank) (\<lambda>NSendParTotal.
     ebind (if JustCountNPar then Inr 0 else imul NSendParTotal (int NParVar)) (\<lambda>size.
     if NSendPatchTotal < 0 \<or> size < 0 then Inl Undefined
     else
       ebind (patch_offsets 0 NPatchForEachRank) (\<lambda>Offset_NPar.
       ebind (data_offsets 0 NParForEachRank) (\<lambda>Offset_ParData.
       ebind (efold (fill_patch E s FaLv PredictPos TargetTime JustCountNPar
                       NSendPatchTotal NSendParTotal) scan
                \<lparr>Offset_NParEachPatch = Offset_NPar,
                 Offset_ParDataEachPatch = Offset_ParData,
                 Buf_NParEachPatch = replicate (nat NSendPatchTotal) 0,
                 Buf_LBIdxEachPatch = replicate (nat NSendPatchTotal) 0,
                 Buf_ParDataEachPatch = replicate (nat size) (Fin 0)\<rparr>)
         (\<lambda>f. Inr \<lparr>SendBuf_NPatchEachRank = NPatchForEachRank,
                   SendBuf_NParEachPatch = Buf_NParEachPatch f,
                   SendBuf_LBIdxEachPatch = Buf_LBIdxEachPatch f,
                   SendBuf_ParDataEachPatch = Buf_ParDataEachPatch f\<rparr>)))))))))"

section \<open>The exchange and the sort and match primitives\<close>

record recvbuf =
  RecvBuf_NPatchEachRank :: "int list"
  RecvBuf_NParEachPatch :: "int list"
  RecvBuf_LBIdxEachPatch :: "int list"
  RecvBuf_ParDataEachPatch :: "fl list"

definition slice :: "'a list \<Rightarrow> int \<Rightarrow> int \<Rightarrow> 'a list" where
  "slice xs off len = take (nat len) (drop (nat off) xs)"

text \<open>What the rank with the buffers \<open>sb\<close> sends to rank \<open>t\<close>: the block of rank \<open>t\<close> in each buffer.\<close>

definition sent_NPar :: "sendbuf \<Rightarrow> nat \<Rightarrow> int list" where
  "sent_NPar sb t =
     slice (SendBuf_NParEachPatch sb) (sum_list (take t (SendBuf_NPatchEachRank sb)))
       (SendBuf_NPatchEachRank sb ! t)"

definition sent_LBIdx :: "sendbuf \<Rightarrow> nat \<Rightarrow> int list" where
  "sent_LBIdx sb t =
     slice (SendBuf_LBIdxEachPatch sb) (sum_list (take t (SendBuf_NPatchEachRank sb)))
       (SendBuf_NPatchEachRank sb ! t)"

definition sent_ParData :: "sendbuf \<Rightarrow> nat \<Rightarrow> fl list" where
  "sent_ParData sb t =
     slice (SendBuf_ParDataEachPatch sb)
       (int NParVar * sum_list (take (nat (sum_list (take t (SendBuf_NPatchEachRank sb))))
                                  (SendBuf_NParEachPatch sb)))
       (int NParVar * sum_list (sent_NPar sb t))"

text \<open>
  Modelled from the spec: \<^verbatim>\<open>Par_LB_SendParticleData\<close>, the exchange primitive, which is not
  part of the sources. Given the send buffers of every rank (grouped by destination rank,
  with the per-rank patch counts), rank \<open>t\<close> receives from every rank, in rank order, the
  block that rank addressed to \<open>t\<close>; every send buffer is fully consumed and every receive
  buffer fully populated. The field data is exchanged only when the switch
  \<open>Exchange_ParDataEachRank\<close> is on. \<^verbatim>\<open>NRecvPatchTotal\<close> is the length of the received
  \<open>RecvBuf_NParEachPatch\<close>.
\<close>

definition Par_LB_SendParticleData :: "bool \<Rightarrow> sendbuf list \<Rightarrow> nat \<Rightarrow> recvbuf" where
  "Par_LB_SendParticleData Exchange_ParDataEachRank sbs t =
     \<lparr>RecvBuf_NPatchEachRank = map (\<lambda>sb. SendBuf_NPatchEachRank sb ! t) sbs,
      RecvBuf_NParEachPatch = concat (map (\<lambda>sb. sent_NPar sb t) sbs),
      RecvBuf_LBIdxEachPatch = concat (map (\<lambda>sb. sent_LBIdx sb t) sbs),
      RecvBuf_ParDataEachPatch =
        (if Exchange_ParDataEachRank then concat (map (\<lambda>sb. sent_ParData sb t) sbs) else [])\<rparr>"

text \<open>
  Modelled from the spec: \<^verbatim>\<open>Mis_Heapsort\<close>, which is not part of the sources: it sorts the
  keys in place and returns the index permutation, a total and reproducible order for a
  fixed input. The model sorts the indices by their keys.
\<close>

definition Mis_Heapsort :: "int list \<Rightarrow> int list \<times> nat list" where
  "Mis_Heapsort keys =
     (let IdxTable = sort_key (\<lambda>i. keys ! i) [0 ..< length keys]
      in (map (\<lambda>i. keys ! i) IdxTable, IdxTable))"

text \<open>
  Modelled from the spec: \<^verbatim>\<open>Mis_Matching_int\<close>, which is not part of the sources: for each
  queried key, the index of that key in the key list of the level, or \<open>-1\<close> for no match.
\<close>

fun match_index :: "int list \<Rightarrow> int \<Rightarrow> int" where
  "match_index [] k = - 1"
| "match_index (a # as) k =
     (if a = k then 0 else (let m = match_index as k in if m = - 1 then - 1 else m + 1))"

definition Mis_Matching_int :: "int \<Rightarrow> int list \<Rightarrow> int list \<Rightarrow> int list" where
  "Mis_Matching_int N Array Key = map (match_index (take (nat N) Array)) Key"

section \<open>Par_LB_CollectParticle2OneLevel: storing the received data\<close>

text \<open>Step 3-2, first loop: the running count of a patch with a son starts at its \<open>NPar\<close>.\<close>

definition seed :: "patch_t \<Rightarrow> patch_t" where
  "seed p = (if son p \<noteq> - 1 then p\<lparr>NPar_Copy := NPar p\<rparr> else p)"

definition map_real :: "int \<Rightarrow> (patch_t \<Rightarrow> patch_t) \<Rightarrow> patch_t list \<Rightarrow> patch_t list" where
  "map_real n f ps = map f (take (nat n) ps) @ drop (nat n) ps"

text \<open>
  Step 3-2, the loop over the sorted records: one iteration, for the match \<open>m\<close> of the
  sorted key and the position \<open>RecvBuf_Idx\<close> of the record in the receive buffer.
\<close>

definition accumulate ::
    "env \<Rightarrow> int list \<Rightarrow> int list \<Rightarrow> int \<times> nat \<Rightarrow> patch_t list \<times> int list \<Rightarrow>
     error + patch_t list \<times> int list" where
  "accumulate E IdxTable_Real RecvNPar mi c =
     (case mi of (m, RecvBuf_Idx) \<Rightarrow> case c of (ps, FaPIDList) \<Rightarrow>
      ebind (fatal_if (DEBUG_PARTICLE E \<and> m = - 1) LBIdx_No_Match) (\<lambda>_.
      ebind (elem IdxTable_Real m) (\<lambda>FaPID_Match.
      ebind (elem ps FaPID_Match) (\<lambda>p.
      ebind (fatal_if (DEBUG_PARTICLE E \<and> son p = - 1) SonPID_Missing) (\<lambda>_.
      ebind (elem RecvNPar (int RecvBuf_Idx)) (\<lambda>n.
      ebind (iadd (NPar_Copy p) n) (\<lambda>c'.
      ebind (put FaPIDList (int RecvBuf_Idx) FaPID_Match) (\<lambda>FaPIDList'.
        Inr (ps[nat FaPID_Match := p\<lparr>NPar_Copy := c'\<rparr>], FaPIDList')))))))))"

text \<open>Step 3-3: one iteration. The content of a new array is not specified; the model fills it with zeros.\<close>

definition allocate :: "patch_t \<Rightarrow> patch_t" where
  "allocate p =
     (if NPar_Copy p > 0
      then p\<lparr>ParMassPos_Copy := map4 (\<lambda>_. Some (replicate (nat (NPar_Copy p)) (Fin 0)))
                                  (ParMassPos_Copy p),
             NPar_Copy := 0\<rparr>
      else p)"

definition write_cell :: "fl list option arr4 \<Rightarrow> nat \<Rightarrow> int \<Rightarrow> fl \<Rightarrow> error + fl list option arr4" where
  "write_cell A v i x =
     (case get4 A v of
        None \<Rightarrow> Inl Undefined
      | Some xs \<Rightarrow> ebind (put xs i x) (\<lambda>xs'. Inr (set4 A v (Some xs'))))"

definition read_cell :: "fl list option arr4 \<Rightarrow> nat \<Rightarrow> int \<Rightarrow> error + fl" where
  "read_cell A v i = (case get4 A v of None \<Rightarrow> Inl Undefined | Some xs \<Rightarrow> elem xs i)"

definition outside :: "fl \<times> fl \<times> fl \<Rightarrow> fl \<times> fl \<times> fl \<Rightarrow> fl \<times> fl \<times> fl \<Rightarrow> bool" where
  "outside L R pos =
     (case L of (lx, ly, lz) \<Rightarrow> case R of (rx, ry, rz) \<Rightarrow> case pos of (x, y, z) \<Rightarrow>
        (fl_less x lx \<or> fl_ge x rx) \<or> (fl_less y ly \<or> fl_ge y ry) \<or>
        (fl_less z lz \<or> fl_ge z rz))"

text \<open>
  Step 3-4, the loop over the particles of one record: one iteration, for the index \<open>i\<close>
  in the arrays of the patch; \<open>RecvPtr\<close> is the position in the received data.
\<close>

definition store_particle ::
    "env \<Rightarrow> bool \<Rightarrow> fl list \<Rightarrow> fl \<times> fl \<times> fl \<Rightarrow> fl \<times> fl \<times> fl \<Rightarrow> int \<Rightarrow>
     fl list option arr4 \<times> int \<Rightarrow> error + fl list option arr4 \<times> int" where
  "store_particle E PredictPos RecvData L R i c =
     (case c of (A, RecvPtr) \<Rightarrow>
      ebind (fatal_if (DEBUG_PARTICLE E \<and> \<not> all4 (\<lambda>a. a \<noteq> None) A) Not_Initialized) (\<lambda>_.
      ebind (efold (\<lambda>v A'. ebind (elem RecvData (RecvPtr + int v)) (write_cell A' v i))
               [0 ..< NParVar] A) (\<lambda>A'.
      ebind (if DEBUG_PARTICLE E then
               ebind (read_cell A' PAR_MASS i) (\<lambda>m.
               ebind (fatal_if (fl_less m (Fin 0)) Inactive_Particle) (\<lambda>_.
               if \<not> PredictPos then
                 ebind (read_cell A' PAR_POSX i) (\<lambda>x.
                 ebind (read_cell A' PAR_POSY i) (\<lambda>y.
                 ebind (read_cell A' PAR_POSZ i) (\<lambda>z.
                   fatal_if (outside L R (x, y, z)) Wrong_Home_Patch)))
               else Inr ()))
             else Inr ()) (\<lambda>_.
        Inr (A', RecvPtr + int NParVar)))))"

text \<open>Step 3-4: one iteration of the loop over the records, in arrival order.\<close>

definition store_record ::
    "env \<Rightarrow> bool \<Rightarrow> fl list \<Rightarrow> int \<times> int \<Rightarrow> patch_t list \<times> int \<Rightarrow> error + patch_t list \<times> int" where
  "store_record E PredictPos RecvData fn c =
     (case fn of (FaPID_Match, n) \<Rightarrow> case c of (ps, RecvPtr) \<Rightarrow>
      ebind (elem ps FaPID_Match) (\<lambda>p.
      ebind (iadd (NPar_Copy p) n) (\<lambda>c'.
      ebind (fatal_if (DEBUG_PARTICLE E \<and> n \<le> 0) RecvBuf_NPar_NonPositive) (\<lambda>_.
      ebind (efold (store_particle E PredictPos RecvData (EdgeL p) (EdgeR p))
               [NPar_Copy p .. c' - 1] (ParMassPos_Copy p, RecvPtr)) (\<lambda>(A, RecvPtr').
        Inr (ps[nat FaPID_Match := p\<lparr>NPar_Copy := c', ParMassPos_Copy := A\<rparr>],
             RecvPtr'))))))"

text \<open>Step 4: one iteration of the loop over the particles that stay in a patch with a son.\<close>

definition merge_particle ::
    "env \<Rightarrow> amr_t \<Rightarrow> int \<Rightarrow> nat \<times> int \<Rightarrow> fl list option arr4 \<Rightarrow> error + fl list option arr4" where
  "merge_particle E s cnt qi A =
     (case qi of (q, ParID) \<Rightarrow>
      ebind (iadd cnt (int q)) (\<lambda>idx.
      ebind (if DEBUG_PARTICLE E \<and> Integ (Par s) = PAR_INTEG_KDK
             then ebind (elem (Time (Par s)) ParID)
                    (\<lambda>t. fatal_if (fl_ge t (Fin 0)) Particle_Should_Not_Be_Here)
             else Inr ()) (\<lambda>_.
      efold (\<lambda>v A'. ebind (elem (ParVar (Par s) v) ParID) (write_cell A' v idx))
        [PAR_MASS, PAR_POSX, PAR_POSY, PAR_POSZ] A)))"

text \<open>Step 4: one iteration of the loop over the real patches at \<open>FaLv\<close>.\<close>

definition merge_patch :: "env \<Rightarrow> amr_t \<Rightarrow> patch_t \<Rightarrow> error + patch_t" where
  "merge_patch E s p =
     (if son p \<noteq> - 1 \<and> NPar p > 0 then
        ebind (emap (\<lambda>q. elem (ParList p) (int q)) [0 ..< nat (NPar p)]) (\<lambda>ids.
        ebind (efold (merge_particle E s (NPar_Copy p)) (zip [0 ..< nat (NPar p)] ids)
                 (ParMassPos_Copy p)) (\<lambda>A.
        ebind (iadd (NPar_Copy p) (NPar p)) (\<lambda>c'.
          Inr (p\<lparr>ParMassPos_Copy := A, NPar_Copy := c'\<rparr>))))
      else Inr p)"

text \<open>
  Steps 3 and 4 on one rank, for the buffers \<open>rb\<close> the exchange returned.
  \<^verbatim>\<open>NRecvPatchTotal\<close>, an \<^verbatim>\<open>int\<close>, is the number of the records received. The list
  \<open>FaPIDList\<close> starts at \<open>-1\<close> (the diagnostic build sets it; every entry is overwritten by
  the loop, the index table being a permutation).
\<close>

definition store_received ::
    "env \<Rightarrow> int \<Rightarrow> bool \<Rightarrow> bool \<Rightarrow> recvbuf \<Rightarrow> amr_t \<Rightarrow> error + amr_t" where
  "store_received E FaLv PredictPos JustCountNPar rb s =
     ebind (int32 (int (length (RecvBuf_NParEachPatch rb)))) (\<lambda>_.
     ebind (elem (NPatchComma s) FaLv) (\<lambda>n.
     ebind (elem (patch s) FaLv) (\<lambda>ps.
     if int (length ps) < n then Inl Undefined else
     ebind (elem (IdxList_Real (LB s)) FaLv) (\<lambda>IdxList.
     ebind (elem (IdxList_Real_IdxTable (LB s)) FaLv) (\<lambda>IdxTable_Real.
     let NRecvPatchTotal = length (RecvBuf_NParEachPatch rb);
         (Sorted_LBIdx, RecvBuf_LBIdxEachPatch_IdxTable) = Mis_Heapsort (RecvBuf_LBIdxEachPatch rb);
         Match_LBIdxEachPatch = Mis_Matching_int n IdxList Sorted_LBIdx
     in
     ebind (efold (accumulate E IdxTable_Real (RecvBuf_NParEachPatch rb))
              (zip Match_LBIdxEachPatch RecvBuf_LBIdxEachPatch_IdxTable)
              (map_real n seed ps, replicate NRecvPatchTotal (- 1))) (\<lambda>(ps1, FaPIDList).
     ebind (fatal_if (DEBUG_PARTICLE E \<and> (\<exists>x \<in> set FaPIDList. x < 0 \<or> x \<ge> n)) Incorrect_PID) (\<lambda>_.
     ebind (if \<not> JustCountNPar then
              ebind (efold (store_record E PredictPos (RecvBuf_ParDataEachPatch rb))
                       (zip FaPIDList (RecvBuf_NParEachPatch rb))
                       (map_real n allocate ps1, 0)) (\<lambda>(ps2, _).
              ebind (emap (merge_patch E s) (take (nat n) ps2)) (\<lambda>qs.
                Inr (qs @ drop (nat n) ps2)))
            else Inr ps1) (\<lambda>ps3.
       Inr (s\<lparr>patch := (patch s)[nat FaLv := ps3]\<rparr>)))))))))"

section \<open>Par_LB_CollectParticle2OneLevel: the whole call\<close>

text \<open>The diagnostic checks at the start, on one rank.\<close>

definition check_flags :: "env \<Rightarrow> bool \<Rightarrow> bool \<Rightarrow> bool \<Rightarrow> bool \<Rightarrow> error + unit" where
  "check_flags E PredictPos SibBufPatch FaSibBufPatch JustCountNPar =
     (if DEBUG_PARTICLE E \<and> JustCountNPar then
        ebind (fatal_if PredictPos JustCountNPar_PredictPos) (\<lambda>_.
        ebind (fatal_if SibBufPatch JustCountNPar_SibBufPatch) (\<lambda>_.
          fatal_if FaSibBufPatch JustCountNPar_FaSibBufPatch))
      else Inr ())"

definition check_uninitialized :: "env \<Rightarrow> int \<Rightarrow> amr_t \<Rightarrow> error + unit" where
  "check_uninitialized E FaLv s =
     (if DEBUG_PARTICLE E then
        ebind (real_patches s FaLv) (\<lambda>ps.
          efold (\<lambda>p _.
              ebind (fatal_if (NPar_Copy p \<noteq> - 1) Initialized_Already) (\<lambda>_.
                fatal_if (\<not> all4 (\<lambda>a. a = None) (ParMassPos_Copy p)) Initialized_Already))
            ps ())
      else Inr ())"

text \<open>
  Step 5 on one rank: the two local sums of the diagnostic build, in the type \<^verbatim>\<open>long\<close>.
\<close>

definition ladd :: "env \<Rightarrow> int \<Rightarrow> int \<Rightarrow> error + int" where
  "ladd E a b =
     (if - LONG_MAX E - 1 \<le> a + b \<and> a + b \<le> LONG_MAX E then Inr (a + b) else Inl Undefined)"

definition lsum :: "env \<Rightarrow> int list \<Rightarrow> error + int" where
  "lsum E xs = efold (\<lambda>x total. ladd E total x) xs 0"

definition NParLocal_Get :: "env \<Rightarrow> amr_t \<Rightarrow> int \<Rightarrow> error + int" where
  "NParLocal_Get E s FaLv =
     ebind (real_patches s FaLv) (\<lambda>ps.
       lsum E (map (\<lambda>p. if son p = - 1 then NPar p else NPar_Copy p) ps))"

definition NParLocal_Check :: "env \<Rightarrow> amr_t \<Rightarrow> int \<Rightarrow> error + int" where
  "NParLocal_Check E s FaLv =
     ebind (emap (elem (NPar_Lv (Par s))) [FaLv .. MAX_LEVEL E]) (lsum E)"

text \<open>
  Step 5: the sums over all ranks (\<^verbatim>\<open>MPI_Reduce\<close> with \<^verbatim>\<open>MPI_SUM\<close> on \<^verbatim>\<open>MPI_LONG\<close>) and the
  comparison on rank 0. The order in which the reduction adds is not fixed, so its sum is
  taken to be defined when no order of adding can leave the type \<^verbatim>\<open>long\<close>.
\<close>

definition MPI_Reduce_sum :: "env \<Rightarrow> int list \<Rightarrow> error + int" where
  "MPI_Reduce_sum E xs =
     (if sum_list (filter (\<lambda>x. 0 < x) xs) \<le> LONG_MAX E \<and>
         - LONG_MAX E - 1 \<le> sum_list (filter (\<lambda>x. x < 0) xs)
      then Inr (sum_list xs) else Inl Undefined)"

definition check_total :: "env \<Rightarrow> int \<Rightarrow> amr_t list \<Rightarrow> error + unit" where
  "check_total E FaLv ss =
     (if DEBUG_PARTICLE E then
        ebind (emap (\<lambda>s. NParLocal_Get E s FaLv) ss) (\<lambda>gets.
        ebind (emap (\<lambda>s. NParLocal_Check E s FaLv) ss) (\<lambda>checks.
        ebind (MPI_Reduce_sum E gets) (\<lambda>NParAllRank_Get.
        ebind (MPI_Reduce_sum E checks) (\<lambda>NParAllRank_Check.
          fatal_if (ss \<noteq> [] \<and> NParAllRank_Get \<noteq> NParAllRank_Check) Total_Number_Mismatch))))
      else Inr ())"

text \<open>Steps 0-1, 0-2 and 6-1, 6-2: the two calls for the buffer patches.\<close>

definition collect_buffers ::
    "env \<Rightarrow> int \<Rightarrow> bool \<Rightarrow> fl \<Rightarrow> bool \<Rightarrow> bool \<Rightarrow> bool \<Rightarrow> amr_t list \<Rightarrow> error + amr_t list" where
  "collect_buffers E FaLv PredictPos TargetTime SibBufPatch FaSibBufPatch JustCountNPar ss =
     ebind (if SibBufPatch \<and> \<not> JustCountNPar
            then Par_LB_CollectParticleFromRealPatch E FaLv FaLv 0 PredictPos TargetTime ss
            else Inr ss) (\<lambda>ss1.
       if FaSibBufPatch \<and> FaLv > 0 \<and> \<not> JustCountNPar
       then Par_LB_CollectParticleFromRealPatch E (FaLv - 1) FaLv 1 PredictPos TargetTime ss1
       else Inr ss1)"

text \<open>
  The function is run by every rank at once, the exchange being collective: the model
  takes the states of all ranks (rank \<open>r\<close> is \<open>ss ! r\<close>, \<^verbatim>\<open>MPI_NRank\<close> is \<open>length ss\<close>) and
  returns their states after the call, or the error that ended the run.
\<close>

definition Par_LB_CollectParticle2OneLevel ::
    "env \<Rightarrow> int \<Rightarrow> bool \<Rightarrow> fl \<Rightarrow> bool \<Rightarrow> bool \<Rightarrow> bool \<Rightarrow> amr_t list \<Rightarrow> error + amr_t list" where
  "Par_LB_CollectParticle2OneLevel E FaLv PredictPos TargetTime SibBufPatch FaSibBufPatch
       JustCountNPar ss =
     (if FaLv > MAX_LEVEL E then Inr ss
      else
        ebind (check_flags E PredictPos SibBufPatch FaSibBufPatch JustCountNPar) (\<lambda>_.
        ebind (emap (check_uninitialized E FaLv) ss) (\<lambda>_.
        if FaLv = MAX_LEVEL E
        then collect_buffers E FaLv PredictPos TargetTime SibBufPatch FaSibBufPatch JustCountNPar ss
        else
          ebind (emap (prepare_send E (length ss) FaLv PredictPos TargetTime JustCountNPar) ss)
            (\<lambda>sbs.
          ebind (emap (\<lambda>(r, s). store_received E FaLv PredictPos JustCountNPar
                                  (Par_LB_SendParticleData (\<not> JustCountNPar) sbs r) s)
                   (zip [0 ..< length ss] ss)) (\<lambda>ss1.
          ebind (check_total E FaLv ss1) (\<lambda>_.
            collect_buffers E FaLv PredictPos TargetTime SibBufPatch FaSibBufPatch
              JustCountNPar ss1))))))"
section \<open>Predicates used to state the properties of the release\<close>

text \<open>The patch \<^verbatim>\<open>amr->patch[0][lv][PID]\<close> exists and holds no shadow data.\<close>

definition clean_at :: "amr_t \<Rightarrow> int \<Rightarrow> int \<Rightarrow> bool" where
  "clean_at s lv PID = (case get_patch s lv PID of Inr p \<Rightarrow> patch_clean p | Inl _ \<Rightarrow> False)"

text \<open>
  What a release may change: nothing but patches, and a patch only by \<open>free_patch\<close>.
\<close>

definition freed_rel :: "amr_t \<Rightarrow> amr_t \<Rightarrow> bool" where
  "freed_rel s s' \<longleftrightarrow>
     NPatchComma s' = NPatchComma s \<and> num s' = num s \<and> scale s' = scale s \<and> Par s' = Par s \<and>
     LB s' = LB s \<and> length (patch s') = length (patch s) \<and>
     (\<forall>l < length (patch s). length (patch s' ! l) = length (patch s ! l) \<and>
        (\<forall>i < length (patch s ! l).
           patch s' ! l ! i = patch s ! l ! i \<or> patch s' ! l ! i = free_patch (patch s ! l ! i)))"

text \<open>The PIDs \<^verbatim>\<open>R2B_Buff_PIDList[lv][t][p]\<close> for \<^verbatim>\<open>p < R2B_Buff_NPatchTotal[lv][t]\<close>.\<close>

definition buffer_PIDs :: "amr_t \<Rightarrow> int \<Rightarrow> nat \<Rightarrow> error + int list" where
  "buffer_PIDs s lv t =
     ebind (elem (R2B_Buff_NPatchTotal (Par s)) lv) (\<lambda>tot.
       emap (\<lambda>p. ebind (elem (R2B_Buff_PIDList (Par s)) lv) (\<lambda>lists.
                    elem (fst_or_snd t lists) (int p)))
         [0 ..< nat (fst_or_snd t tot)])"

text \<open>
  Every patch that a release with these flags visits is clean: the real patches at \<open>lv\<close>,
  the sibling-buffer patches at \<open>lv\<close> when selected, the father-sibling-buffer patches at
  \<open>lv - 1\<close> when selected and \<open>lv > 0\<close>.
\<close>

definition released_clean :: "amr_t \<Rightarrow> int \<Rightarrow> bool \<Rightarrow> bool \<Rightarrow> bool" where
  "released_clean s lv SibBufPatch FaSibBufPatch =
     ((case elem (NPatchComma s) lv of
         Inr n \<Rightarrow> list_all (\<lambda>PID. clean_at s lv (int PID)) [0 ..< nat n]
       | Inl _ \<Rightarrow> False) \<and>
      (\<not> SibBufPatch \<or>
        (case buffer_PIDs s lv 0 of Inr pids \<Rightarrow> list_all (clean_at s lv) pids | Inl _ \<Rightarrow> False)) \<and>
      (\<not> (FaSibBufPatch \<and> lv - 1 \<ge> 0) \<or>
        (case buffer_PIDs s lv 1 of
           Inr pids \<Rightarrow> list_all (clean_at s (lv - 1)) pids
         | Inl _ \<Rightarrow> False)))"

text \<open>The diagnostic post-condition: all \<^verbatim>\<open>amr->num[TLv]\<close> patches of a level are clean.\<close>

definition level_clean :: "amr_t \<Rightarrow> int \<Rightarrow> bool" where
  "level_clean s TLv =
     (case elem (num s) TLv of
        Inr n \<Rightarrow> list_all (\<lambda>PID. clean_at s TLv (int PID)) [0 ..< nat n]
      | Inl _ \<Rightarrow> False)"

definition scan_clean :: "amr_t \<Rightarrow> int \<Rightarrow> bool" where
  "scan_clean s lv = list_all (level_clean s) (filter (\<lambda>TLv. TLv \<ge> 0) [lv, lv - 1])"

text \<open>One iteration of loop 2 or 3 of the release, and the PID it reads.\<close>

definition free_buffer_step :: "int \<Rightarrow> nat \<Rightarrow> int \<Rightarrow> nat \<Rightarrow> amr_t \<Rightarrow> error + amr_t" where
  "free_buffer_step lv t TLv p s' =
     ebind (elem (R2B_Buff_PIDList (Par s')) lv) (\<lambda>lists.
     ebind (elem (fst_or_snd t lists) (int p)) (\<lambda>PID. upd_patch free_patch TLv PID s'))"

definition PID_of :: "amr_t \<Rightarrow> int \<Rightarrow> nat \<Rightarrow> nat \<Rightarrow> error + int" where
  "PID_of s lv t p =
     ebind (elem (R2B_Buff_PIDList (Par s)) lv) (\<lambda>lists. elem (fst_or_snd t lists) (int p))"

section \<open>Predicates used to state the properties of the collection\<close>

text \<open>The integer is a value of the 32-bit \<^verbatim>\<open>int\<close>.\<close>

definition fits32 :: "int \<Rightarrow> bool" where
  "fits32 x \<longleftrightarrow> - 2147483648 \<le> x \<and> x \<le> 2147483647"

text \<open>The patch \<open>p'\<close> is the patch \<open>p\<close> but for the two shadow fields.\<close>

definition same_but_shadow :: "patch_t \<Rightarrow> patch_t \<Rightarrow> bool" where
  "same_but_shadow p p' \<longleftrightarrow>
     p' = p\<lparr>NPar_Copy := NPar_Copy p', ParMassPos_Copy := ParMassPos_Copy p'\<rparr>"

text \<open>The patch with \<open>n\<close> more in its shadow count.\<close>

definition add_count :: "patch_t \<Rightarrow> int \<Rightarrow> patch_t" where
  "add_count p n = p\<lparr>NPar_Copy := NPar_Copy p + n\<rparr>"

text \<open>The entry \<open>j\<close> of the shadow array \<open>v\<close>, when the array is allocated and has that entry.\<close>

definition cell :: "fl list option arr4 \<Rightarrow> nat \<Rightarrow> nat \<Rightarrow> fl option" where
  "cell A v j =
     (case get4 A v of Some xs \<Rightarrow> (if j < length xs then Some (xs ! j) else None) | None \<Rightarrow> None)"

text \<open>The position lies in the half-open box \<open>[L, R)\<close> on every axis.\<close>

definition inside :: "fl \<times> fl \<times> fl \<Rightarrow> fl \<times> fl \<times> fl \<Rightarrow> fl \<times> fl \<times> fl \<Rightarrow> bool" where
  "inside L R pos =
     (case L of (lx, ly, lz) \<Rightarrow> case R of (rx, ry, rz) \<Rightarrow> case pos of (x, y, z) \<Rightarrow>
        fl_ge x lx \<and> fl_less x rx \<and> fl_ge y ly \<and> fl_less y ry \<and> fl_ge z lz \<and> fl_less z rz)"





text \<open>
  The place in the received data where the particles of the record \<open>t\<close> start: step 3-4
  reads \<^verbatim>\<open>NParVar\<close> values for every particle of the records before it.
\<close>

definition cursor :: "int list \<Rightarrow> nat \<Rightarrow> int" where
  "cursor cs t = 4 * sum_list (map (\<lambda>c. int (nat c)) (take t cs))"

text \<open>The number of the particles in transit that step 4 appends to the shadow fields of a patch.\<close>

definition resident :: "patch_t \<Rightarrow> int" where
  "resident p = (if son p \<noteq> - 1 \<and> NPar p > 0 then NPar p else 0)"

text \<open>The real patch of the target level that steps 3-1 and 3-2 match a received key with.\<close>

definition owner_of_key :: "amr_t \<Rightarrow> int \<Rightarrow> int \<Rightarrow> error + int" where
  "owner_of_key s FaLv key =
     ebind (elem (NPatchComma s) FaLv) (\<lambda>n.
     ebind (elem (IdxList_Real (LB s)) FaLv) (\<lambda>IdxList.
     ebind (elem (IdxList_Real_IdxTable (LB s)) FaLv) (\<lambda>tab.
       elem tab (match_index (take (nat n) IdxList) key))))"

text \<open>The particles of the received records whose key is matched with the patch \<open>PID\<close>.\<close>

definition received_for :: "amr_t \<Rightarrow> int \<Rightarrow> recvbuf \<Rightarrow> int \<Rightarrow> int" where
  "received_for s FaLv rb PID =
     sum_list (map snd (filter (\<lambda>kn. owner_of_key s FaLv (fst kn) = Inr PID)
                          (zip (RecvBuf_LBIdxEachPatch rb) (RecvBuf_NParEachPatch rb))))"

text \<open>
  The shadow count that steps 3 and 4 leave in a patch whose records hold \<open>A\<close> particles: the
  seed and the records (step 3-2); when the data is collected, the count is set back to 0
  where the arrays are allocated (step 3-3), the records are counted again as they are
  stored (step 3-4), and the particles in transit are added (step 4).
\<close>

definition expected_count :: "bool \<Rightarrow> bool \<Rightarrow> patch_t \<Rightarrow> int \<Rightarrow> int" where
  "expected_count JustCountNPar is_real p A =
     (let c1 = (if is_real \<and> son p \<noteq> - 1 then NPar p else NPar_Copy p) + A in
      if JustCountNPar then c1
      else (if is_real \<and> c1 > 0 then 0 else c1) + A + (if is_real then resident p else 0))"

text \<open>Steps 3 and 4 on one rank, patch by patch.\<close>

definition store_post ::
    "env \<Rightarrow> int \<Rightarrow> bool \<Rightarrow> recvbuf \<Rightarrow> amr_t \<Rightarrow> amr_t \<Rightarrow> int \<Rightarrow> patch_t list \<Rightarrow> patch_t list \<Rightarrow> bool" where
  "store_post E FaLv JustCountNPar rb s s' n ps ps' \<longleftrightarrow>
    elem (NPatchComma s) FaLv = Inr n \<and> elem (patch s) FaLv = Inr ps \<and> n \<le> int (length ps) \<and>
    s' = s\<lparr>patch := (patch s)[nat FaLv := ps']\<rparr> \<and> length ps' = length ps \<and>
    (\<forall>k < length ps.
       same_but_shadow (ps ! k) (ps' ! k) \<and>
       NPar_Copy (ps' ! k)
         = expected_count JustCountNPar (int k < n) (ps ! k) (received_for s FaLv rb (int k)) \<and>
       (JustCountNPar \<longrightarrow> ParMassPos_Copy (ps' ! k) = ParMassPos_Copy (ps ! k)) \<and>
       ((\<forall>key \<in> set (RecvBuf_LBIdxEachPatch rb). owner_of_key s FaLv key \<noteq> Inr (int k)) \<and>
        (int k < n \<longrightarrow> NPar_Copy (ps ! k) \<le> 0 \<and> son (ps ! k) = - 1) \<longrightarrow> ps' ! k = ps ! k)) \<and>
    (\<forall>key \<in> set (RecvBuf_LBIdxEachPatch rb). \<exists>ow.
       owner_of_key s FaLv key = Inr ow \<and> 0 \<le> ow \<and> nat ow < length ps \<and>
       (DEBUG_PARTICLE E \<longrightarrow> ow < n \<and> son (ps ! nat ow) \<noteq> - 1)) \<and>
    (DEBUG_PARTICLE E \<and> \<not> JustCountNPar \<longrightarrow> (\<forall>c \<in> set (RecvBuf_NParEachPatch rb). 0 < c))"


text \<open>The patch \<open>i\<close> of level \<open>l\<close> is a buffer patch: its index is not below \<^verbatim>\<open>NPatchComma[l][1]\<close>.\<close>

definition is_buffer :: "amr_t \<Rightarrow> nat \<Rightarrow> nat \<Rightarrow> bool" where
  "is_buffer s l i = (case elem (NPatchComma s) (int l) of Inr n \<Rightarrow> n \<le> int i | Inl _ \<Rightarrow> False)"

text \<open>From \<open>s\<close> to \<open>s'\<close> nothing has changed but the shadow fields of the patches that \<open>W\<close> selects.\<close>

definition shadow_frame :: "(nat \<Rightarrow> nat \<Rightarrow> bool) \<Rightarrow> amr_t \<Rightarrow> amr_t \<Rightarrow> bool" where
  "shadow_frame W s s' \<longleftrightarrow>
     NPatchComma s' = NPatchComma s \<and> num s' = num s \<and> scale s' = scale s \<and> Par s' = Par s \<and>
     LB s' = LB s \<and> length (patch s') = length (patch s) \<and>
     (\<forall>l < length (patch s). length (patch s' ! l) = length (patch s ! l) \<and>
        (\<forall>i < length (patch s ! l).
           (W l i \<longrightarrow> same_but_shadow (patch s ! l ! i) (patch s' ! l ! i)) \<and>
           (\<not> W l i \<longrightarrow> patch s' ! l ! i = patch s ! l ! i)))"

text \<open>
  Modelled from the spec: the effect of \<^verbatim>\<open>Par_LB_CollectParticleFromRealPatch\<close>, which is not part
  of the sources, as far as the properties below need it: a call for the level \<open>lv\<close> writes
  the shadow fields of buffer patches of that level, on every rank, and nothing else.
\<close>

definition collector_frame :: "env \<Rightarrow> bool" where
  "collector_frame E \<longleftrightarrow>
     (\<forall>lv FaLv t PredictPos TargetTime ss ss'.
        Par_LB_CollectParticleFromRealPatch E lv FaLv t PredictPos TargetTime ss = Inr ss' \<longrightarrow>
        length ss' = length ss \<and>
        (\<forall>r < length ss. shadow_frame (\<lambda>l i. int l = lv \<and> is_buffer (ss ! r) l i) (ss ! r) (ss' ! r)))"

text \<open>The part of one iteration of the filling scan that concerns the counts and the keys.\<close>

definition fill_header ::
    "env \<Rightarrow> amr_t \<Rightarrow> int \<Rightarrow> int \<Rightarrow> int \<Rightarrow> int \<times> patch_t \<Rightarrow>
     int list \<times> int list \<times> int list \<Rightarrow> error + int list \<times> int list \<times> int list" where
  "fill_header E s FaLv NSendPatchTotal NSendParTotal lp h =
     (case lp of (lv, p) \<Rightarrow> case h of (offs, bn, bl) \<Rightarrow>
      if NPar p = 0 then Inr h
      else
        ebind (target_rank E s FaLv lv p) (\<lambda>(LB_Idx', TRank).
        ebind (elem offs TRank) (\<lambda>off.
        ebind (if DEBUG_PARTICLE E then
                 ebind (fatal_if (off \<ge> NSendPatchTotal) Offset_NParEachPatch_Max) (\<lambda>_.
                 ebind (iadd off (int PAR_POSZ)) (\<lambda>a.
                 ebind (imul NSendParTotal (int NParVar)) (\<lambda>b.
                   fatal_if (a \<ge> b) Offset_PAR_POSZ_Max)))
               else Inr ()) (\<lambda>_.
        ebind (put bn off (NPar p)) (\<lambda>bn'.
        ebind (put bl off LB_Idx') (\<lambda>bl'.
        ebind (iadd off 1) (\<lambda>off'.
          Inr (offs[nat TRank := off'], bn', bl'))))))))"

text \<open>The offsets of step 1-3 as sums: the offset of a rank is the sum of the counts of the lower ranks.\<close>

definition offsets :: "int list \<Rightarrow> int list" where
  "offsets cs = map (\<lambda>r. sum_list (take r cs)) [0 ..< length cs]"

text \<open>
  The offsets, the counts and the keys of a filling state, and the counts for the ranks, the
  counts and the keys of the send buffers.
\<close>

definition hdr :: "fill_state \<Rightarrow> int list \<times> int list \<times> int list" where
  "hdr f = (Offset_NParEachPatch f, Buf_NParEachPatch f, Buf_LBIdxEachPatch f)"

definition send_header :: "sendbuf \<Rightarrow> int list \<times> int list \<times> int list" where
  "send_header sb = (SendBuf_NPatchEachRank sb, SendBuf_NParEachPatch sb, SendBuf_LBIdxEachPatch sb)"

text \<open>
  No real patch of the target level holds shadow data: what the check at the entry of a
  diagnostic build asks for.
\<close>

definition uninitialized :: "amr_t \<Rightarrow> int \<Rightarrow> bool" where
  "uninitialized s FaLv =
     (case real_patches s FaLv of Inr ps \<Rightarrow> list_all patch_clean ps | Inl _ \<Rightarrow> False)"

text \<open>What the ranks receive in step 2, from the send buffers of step 1.\<close>

definition received :: "env \<Rightarrow> int \<Rightarrow> bool \<Rightarrow> fl \<Rightarrow> bool \<Rightarrow> amr_t list \<Rightarrow> error + recvbuf list" where
  "received E FaLv PredictPos TargetTime JustCountNPar ss =
     ebind (emap (prepare_send E (length ss) FaLv PredictPos TargetTime JustCountNPar) ss) (\<lambda>sbs.
       Inr (map (Par_LB_SendParticleData (\<not> JustCountNPar) sbs) [0 ..< length ss]))"

text \<open>
  Every received record has a positive count and a key that belongs to a real patch of the
  target level with a son: what steps 3-2 and 3-4 of a diagnostic build check.
\<close>

definition records_ok :: "amr_t \<Rightarrow> int \<Rightarrow> recvbuf \<Rightarrow> bool" where
  "records_ok s FaLv rb =
     (list_all (\<lambda>c. 0 < c) (RecvBuf_NParEachPatch rb) \<and>
      list_all (\<lambda>key. case owner_of_key s FaLv key of
                        Inr ow \<Rightarrow> (case real_patches s FaLv of
                                     Inr ps \<Rightarrow> 0 \<le> ow \<and> nat ow < length ps \<and> son (ps ! nat ow) \<noteq> - 1
                                   | Inl _ \<Rightarrow> False)
                      | Inl _ \<Rightarrow> False)
        (RecvBuf_LBIdxEachPatch rb))"

text \<open>
  What the checks of a diagnostic build establish on rank \<open>r\<close> and a production build
  takes for granted: no real patch of the target level holds shadow data at the call, and
  every record the rank receives belongs to one of its real patches with a son.
\<close>

definition as_diagnosed :: "env \<Rightarrow> int \<Rightarrow> bool \<Rightarrow> fl \<Rightarrow> amr_t list \<Rightarrow> nat \<Rightarrow> bool" where
  "as_diagnosed E FaLv PredictPos TargetTime ss r =
     (uninitialized (ss ! r) FaLv \<and>
      (case received E FaLv PredictPos TargetTime False ss of
         Inr rbs \<Rightarrow> records_ok (ss ! r) FaLv (rbs ! r)
       | Inl _ \<Rightarrow> False))"

text \<open>
  The error of a diagnostic build that finds shadow data at the entry: the checks of the
  flags of a count-only call come first.
\<close>

definition flag_error :: "bool \<Rightarrow> bool \<Rightarrow> bool \<Rightarrow> bool \<Rightarrow> message" where
  "flag_error PredictPos SibBufPatch FaSibBufPatch JustCountNPar =
     (if JustCountNPar \<and> PredictPos then JustCountNPar_PredictPos
      else if JustCountNPar \<and> SibBufPatch then JustCountNPar_SibBufPatch
      else if JustCountNPar \<and> FaSibBufPatch then JustCountNPar_FaSibBufPatch
      else Initialized_Already)"



text \<open>
  The record a finer patch contributes to the send buffers: the destination rank, the key
  at the target level, and the number of its particles.
\<close>

definition send_record :: "env \<Rightarrow> amr_t \<Rightarrow> int \<Rightarrow> int \<times> patch_t \<Rightarrow> error + int \<times> int \<times> int" where
  "send_record E s FaLv lp =
     (case lp of (lv, p) \<Rightarrow>
        ebind (target_rank E s FaLv lv p) (\<lambda>(LB_Idx', TRank). Inr (TRank, LB_Idx', NPar p)))"

definition send_records :: "env \<Rightarrow> amr_t \<Rightarrow> int \<Rightarrow> (int \<times> patch_t) list \<Rightarrow> error + (int \<times> int \<times> int) list" where
  "send_records E s FaLv scan = emap (send_record E s FaLv) (filter (\<lambda>lp. NPar (snd lp) \<noteq> 0) scan)"

text \<open>The number of the records for rank \<open>t\<close>, and the offset of the block of rank \<open>t\<close>.\<close>

definition records_for :: "(int \<times> int \<times> int) list \<Rightarrow> nat \<Rightarrow> int" where
  "records_for recs t = int (length (filter (\<lambda>rec. fst rec = int t) recs))"

definition block_start :: "(int \<times> int \<times> int) list \<Rightarrow> nat \<Rightarrow> int" where
  "block_start recs t = sum_list (map (records_for recs) [0 ..< t])"

text \<open>One iteration of the filling scan on the record of the patch, without its checks.\<close>

definition place_record ::
    "int \<times> int \<times> int \<Rightarrow> int list \<times> int list \<times> int list \<Rightarrow> error + int list \<times> int list \<times> int list" where
  "place_record rec h =
     (case rec of (TRank, LB_Idx', c) \<Rightarrow> case h of (offs, bn, bl) \<Rightarrow>
        ebind (elem offs TRank) (\<lambda>off.
        ebind (put bn off c) (\<lambda>bn'.
        ebind (put bl off LB_Idx') (\<lambda>bl'.
          Inr (offs[nat TRank := off + 1], bn', bl')))))"

text \<open>
  The two numbers that the property of conservation compares on a rank, as sums of integers:
  the particles counted on the real patches of the target level (\<open>NPar\<close> of a patch
  without son, \<open>NPar_Copy\<close> of a patch with a son), and the entries of the table
  \<open>NPar_Lv\<close> for the levels from the target level up. Step 5 of a diagnostic build computes
  them in the type \<^verbatim>\<open>long\<close> (\<open>NParLocal_Get\<close>, \<open>NParLocal_Check\<close>).
\<close>

definition counted :: "amr_t \<Rightarrow> int \<Rightarrow> error + int" where
  "counted s FaLv =
     ebind (real_patches s FaLv) (\<lambda>ps.
       Inr (sum_list (map (\<lambda>p. if son p = - 1 then NPar p else NPar_Copy p) ps)))"

definition tracked :: "env \<Rightarrow> amr_t \<Rightarrow> int \<Rightarrow> error + int" where
  "tracked E s FaLv =
     ebind (emap (elem (NPar_Lv (Par s))) [FaLv .. MAX_LEVEL E]) (\<lambda>ns. Inr (sum_list ns))"

text \<open>
  The table \<open>NPar_Lv\<close> of a rank agrees with its patches on the levels from \<open>FaLv\<close> up: the
  entry of a level is the number of the particles of the real patches of that level.
\<close>

definition tables_consistent :: "env \<Rightarrow> amr_t \<Rightarrow> int \<Rightarrow> bool" where
  "tables_consistent E s FaLv =
     list_all (\<lambda>lv. case elem (NPar_Lv (Par s)) lv of
                       Inr c \<Rightarrow> (case real_patches s lv of
                                    Inr ps \<Rightarrow> c = sum_list (map NPar ps)
                                  | Inl _ \<Rightarrow> False)
                     | Inl _ \<Rightarrow> False)
       [FaLv .. MAX_LEVEL E]"

text \<open>
  What the conservation of the particles rests on in a production build, on rank \<open>r\<close>: the
  table agrees with the patches; below the maximum level no real patch of the target level
  with a son has a negative count and the conditions of a diagnostic build hold; at the
  maximum level no real patch has a son.
\<close>

definition bookkept :: "env \<Rightarrow> int \<Rightarrow> bool \<Rightarrow> fl \<Rightarrow> amr_t list \<Rightarrow> nat \<Rightarrow> bool" where
  "bookkept E FaLv PredictPos TargetTime ss r =
     (tables_consistent E (ss ! r) FaLv \<and>
      (case real_patches (ss ! r) FaLv of
         Inr ps \<Rightarrow> list_all (\<lambda>p. if FaLv < MAX_LEVEL E then son p \<noteq> - 1 \<longrightarrow> 0 \<le> NPar p
                                 else son p = - 1) ps
       | Inl _ \<Rightarrow> False) \<and>
      (FaLv < MAX_LEVEL E \<longrightarrow> as_diagnosed E FaLv PredictPos TargetTime ss r))"
section \<open>Example states\<close>

text \<open>
  A diagnostic build with two levels and the Hilbert curve, one rank owning every key, and
  a buffer routine that collects nothing; the same as a production build.
\<close>

definition demo_env :: env where
  "demo_env =
     \<lparr>DEBUG_PARTICLE = True, HILBERT = True, MAX_LEVEL = 1, PS1 = 8,
      LONG_MAX = 9223372036854775807,
      LB_Corner2Index = (\<lambda>lv c. Inr 0), LB_Index2Rank = (\<lambda>lv k. Inr 0),
      Par_PredictPos = (\<lambda>s ParID pos t. pos),
      Par_LB_CollectParticleFromRealPatch = (\<lambda>lv FaLv t PredictPos TargetTime ss. Inr ss)\<rparr>"

definition demo_env_production :: env where
  "demo_env_production = demo_env\<lparr>DEBUG_PARTICLE := False\<rparr>"

text \<open>A leaf patch without particles and without shadow data, on the unit cube.\<close>

definition demo_patch :: patch_t where
  "demo_patch =
     \<lparr>NPar = 0, ParList = [], son = - 1, LB_Idx = 0, corner = (0, 0, 0),
      EdgeL = (Fin 0, Fin 0, Fin 0), EdgeR = (Fin 1, Fin 1, Fin 1), NPar_Copy = - 1,
      ParMassPos_Copy = Arr4 None None None None\<rparr>"

text \<open>
  One rank. Level 0: the real patch 0, which has a son and one particle in transit
  (particle 2), and the buffer patch 1. Level 1: the real leaf patch 0 with the particles
  0 and 1, whose key 3 lies in the region of key 0 at level 0. Patch 1 of level 0 is the
  sibling-buffer patch of level 0 and the father-sibling-buffer patch of level 1.
\<close>

definition demo_amr :: amr_t where
  "demo_amr =
     \<lparr>patch = [[demo_patch\<lparr>son := 0, NPar := 1, ParList := [2]\<rparr>, demo_patch],
               [demo_patch\<lparr>NPar := 2, ParList := [0, 1], LB_Idx := 3\<rparr>]],
      NPatchComma = [1, 1], num = [2, 1], scale = [2, 1],
      Par = \<lparr>Mass = map Fin [1, 2, 3], PosX = map Fin [1 / 2, 1 / 4, 1 / 8], PosY = map Fin [1 / 2, 1 / 4, 1 / 8],
             PosZ = map Fin [1 / 2, 1 / 4, 1 / 8], Time = map Fin [0, 0, - 1], Integ = PAR_INTEG_KDK,
             NPar_Lv = [1, 2], R2B_Buff_NPatchTotal = [(1, 0), (0, 1)],
             R2B_Buff_PIDList = [([1], []), ([], [1])]\<rparr>,
      LB = \<lparr>IdxList_Real = [[0], [3]], IdxList_Real_IdxTable = [[0], [0]]\<rparr>\<rparr>"

text \<open>The state after collecting to level 0: the shadow of patch 0 holds three particles.\<close>

definition demo_collected :: amr_t where
  "demo_collected =
     demo_amr\<lparr>patch :=
       [[demo_patch\<lparr>son := 0, NPar := 1, ParList := [2], NPar_Copy := 3,
                    ParMassPos_Copy := Arr4 (Some (map Fin [1, 2, 3])) (Some (map Fin [1 / 2, 1 / 4, 1 / 8]))
                      (Some (map Fin [1 / 2, 1 / 4, 1 / 8])) (Some (map Fin [1 / 2, 1 / 4, 1 / 8]))\<rparr>,
         demo_patch],
        [demo_patch\<lparr>NPar := 2, ParList := [0, 1], LB_Idx := 3\<rparr>]]\<rparr>"

text \<open>The same with shadow data in the buffer patch 1 of level 0 as well.\<close>

definition demo_collected_buffer :: amr_t where
  "demo_collected_buffer =
     demo_amr\<lparr>patch :=
       [[demo_patch\<lparr>son := 0, NPar := 1, ParList := [2], NPar_Copy := 3,
                    ParMassPos_Copy := Arr4 (Some (map Fin [1, 2, 3])) (Some (map Fin [1 / 2, 1 / 4, 1 / 8]))
                      (Some (map Fin [1 / 2, 1 / 4, 1 / 8])) (Some (map Fin [1 / 2, 1 / 4, 1 / 8]))\<rparr>,
         demo_patch\<lparr>NPar_Copy := 1,
                    ParMassPos_Copy := Arr4 (Some (map Fin [5])) (Some (map Fin [1 / 2])) (Some (map Fin [1 / 2])) (Some (map Fin [1 / 2]))\<rparr>],
        [demo_patch\<lparr>NPar := 2, ParList := [0, 1], LB_Idx := 3\<rparr>]]\<rparr>"

text \<open>After a release at level 0 without the buffer patches: the buffer patch keeps its data.\<close>

definition demo_released_real :: amr_t where
  "demo_released_real =
     demo_amr\<lparr>patch :=
       [[demo_patch\<lparr>son := 0, NPar := 1, ParList := [2]\<rparr>,
         demo_patch\<lparr>NPar_Copy := 1,
                    ParMassPos_Copy := Arr4 (Some (map Fin [5])) (Some (map Fin [1 / 2])) (Some (map Fin [1 / 2])) (Some (map Fin [1 / 2]))\<rparr>],
        [demo_patch\<lparr>NPar := 2, ParList := [0, 1], LB_Idx := 3\<rparr>]]\<rparr>"

text \<open>
  Two ranks. Rank 0 owns every key of level 0. At level 0 it has the real patch 0, which
  has a son and the particle 2 in transit, and the real leaf patch 1 with the particle 3;
  at level 1 the real leaf patch 0 with the particles 0 and 1. Rank 1 has no patch at
  level 0 and one real leaf patch at level 1, with its particle 0; the key 5 of that patch
  lies in the region of key 0 at level 0, as the key 3 of the level-1 patch of rank 0.
\<close>

definition demo_rank0 :: amr_t where
  "demo_rank0 =
     \<lparr>patch = [[demo_patch\<lparr>son := 0, NPar := 1, ParList := [2]\<rparr>,
                demo_patch\<lparr>NPar := 1, ParList := [3], LB_Idx := 1,
                           EdgeL := (Fin 1, Fin 0, Fin 0), EdgeR := (Fin 2, Fin 1, Fin 1)\<rparr>],
               [demo_patch\<lparr>NPar := 2, ParList := [0, 1], LB_Idx := 3\<rparr>]],
      NPatchComma = [2, 1], num = [2, 1], scale = [2, 1],
      Par = \<lparr>Mass = map Fin [1, 2, 3, 5], PosX = map Fin [1 / 2, 1 / 4, 1 / 8, 3 / 2],
             PosY = map Fin [1 / 2, 1 / 4, 1 / 8, 1 / 2], PosZ = map Fin [1 / 2, 1 / 4, 1 / 8, 1 / 2],
             Time = map Fin [0, 0, - 1, 0], Integ = PAR_INTEG_KDK,
             NPar_Lv = [2, 2], R2B_Buff_NPatchTotal = [(0, 0), (0, 0)],
             R2B_Buff_PIDList = [([], []), ([], [])]\<rparr>,
      LB = \<lparr>IdxList_Real = [[0, 1], [3]], IdxList_Real_IdxTable = [[0, 1], [0]]\<rparr>\<rparr>"

definition demo_rank1 :: amr_t where
  "demo_rank1 =
     \<lparr>patch = [[], [demo_patch\<lparr>NPar := 1, ParList := [0], LB_Idx := 5\<rparr>]],
      NPatchComma = [0, 1], num = [0, 1], scale = [2, 1],
      Par = \<lparr>Mass = map Fin [4], PosX = map Fin [3 / 4], PosY = map Fin [3 / 4], PosZ = map Fin [3 / 4],
             Time = map Fin [0], Integ = PAR_INTEG_KDK,
             NPar_Lv = [0, 1], R2B_Buff_NPatchTotal = [(0, 0), (0, 0)],
             R2B_Buff_PIDList = [([], []), ([], [])]\<rparr>,
      LB = \<lparr>IdxList_Real = [[], [5]], IdxList_Real_IdxTable = [[], [0]]\<rparr>\<rparr>"

text \<open>Rank 0 after the collection to level 0: the shadow of patch 0 holds four particles.\<close>

definition demo_rank0_collected :: amr_t where
  "demo_rank0_collected =
     demo_rank0\<lparr>patch :=
       [[demo_patch\<lparr>son := 0, NPar := 1, ParList := [2], NPar_Copy := 4,
                    ParMassPos_Copy := Arr4 (Some (map Fin [1, 2, 4, 3])) (Some (map Fin [1 / 2, 1 / 4, 3 / 4, 1 / 8]))
                      (Some (map Fin [1 / 2, 1 / 4, 3 / 4, 1 / 8])) (Some (map Fin [1 / 2, 1 / 4, 3 / 4, 1 / 8]))\<rparr>,
         demo_patch\<lparr>NPar := 1, ParList := [3], LB_Idx := 1,
                    EdgeL := (Fin 1, Fin 0, Fin 0), EdgeR := (Fin 2, Fin 1, Fin 1)\<rparr>],
        [demo_patch\<lparr>NPar := 2, ParList := [0, 1], LB_Idx := 3\<rparr>]]\<rparr>"

text \<open>The same after a collection that only counts.\<close>

definition demo_rank0_counted :: amr_t where
  "demo_rank0_counted =
     demo_rank0\<lparr>patch :=
       [[demo_patch\<lparr>son := 0, NPar := 1, ParList := [2], NPar_Copy := 4\<rparr>,
         demo_patch\<lparr>NPar := 1, ParList := [3], LB_Idx := 1,
                    EdgeL := (Fin 1, Fin 0, Fin 0), EdgeR := (Fin 2, Fin 1, Fin 1)\<rparr>],
        [demo_patch\<lparr>NPar := 2, ParList := [0, 1], LB_Idx := 3\<rparr>]]\<rparr>"
section \<open>Basic lemmas\<close>

lemma ebind_Inr_iff: "ebind m f = Inr y \<longleftrightarrow> (\<exists>x. m = Inr x \<and> f x = Inr y)"
  by (cases m) (auto simp: ebind_def)

lemma ebind_Inr [simp]: "ebind (Inr x) f = f x"
  by (simp add: ebind_def)

lemma ebind_Inl [simp]: "ebind (Inl e) f = Inl e"
  by (simp add: ebind_def)

lemma elem_Inr_iff: "elem xs i = Inr x \<longleftrightarrow> 0 \<le> i \<and> nat i < length xs \<and> x = xs ! nat i"
  by (auto simp: elem_def)

lemma fatal_if_Inr_iff: "fatal_if c m = Inr u \<longleftrightarrow> \<not> c"
  by (simp add: fatal_if_def)

lemma efold_invariant:
  assumes "efold f xs s = Inr s'" and "I s"
    and "\<And>x a b. x \<in> set xs \<Longrightarrow> I a \<Longrightarrow> f x a = Inr b \<Longrightarrow> I b"
  shows "I s'"
  using assms
proof (induction xs arbitrary: s)
  case Nil
  then show ?case by simp
next
  case (Cons x xs)
  from Cons.prems(1) obtain a where a: "f x s = Inr a" and r: "efold f xs a = Inr s'"
    by (auto simp: ebind_Inr_iff)
  have "I a" using Cons.prems(3) [of x s a] Cons.prems(2) a by simp
  show ?case
  proof (rule Cons.IH [OF r \<open>I a\<close>])
    fix y b c assume "y \<in> set xs" "I b" "f y b = Inr c"
    then show "I c" using Cons.prems(3) [of y b c] by simp
  qed
qed

lemma efold_append: "efold f (xs @ ys) s = ebind (efold f xs s) (efold f ys)"
  by (induction xs arbitrary: s) (auto simp: ebind_def split: sum.splits)

lemma free_patch_clean: "patch_clean (free_patch p)"
  by (cases "ParMassPos_Copy p") (simp add: patch_clean_def free_patch_def)

lemma free_patch_id: "patch_clean p \<Longrightarrow> free_patch p = p"
  by (cases "ParMassPos_Copy p") (simp add: patch_clean_def free_patch_def)

lemma get_patch_Inr_iff:
  "get_patch s lv PID = Inr p \<longleftrightarrow>
     0 \<le> lv \<and> nat lv < length (patch s) \<and> 0 \<le> PID \<and> nat PID < length (patch s ! nat lv) \<and>
     p = patch s ! nat lv ! nat PID"
  by (auto simp: get_patch_def ebind_Inr_iff elem_Inr_iff)

lemma upd_patch_Inr_iff:
  "upd_patch f lv PID s = Inr s' \<longleftrightarrow>
     (\<exists>p. get_patch s lv PID = Inr p \<and>
        s' = s\<lparr>patch := (patch s)[nat lv := (patch s ! nat lv)[nat PID := f p]]\<rparr>)"
  by (auto simp: upd_patch_def ebind_Inr_iff)

lemma upd_free_noop:
  assumes "clean_at s lv PID" shows "upd_patch free_patch lv PID s = Inr s"
proof -
  from assms obtain p where p: "get_patch s lv PID = Inr p" and c: "patch_clean p"
    by (auto simp: clean_at_def split: sum.splits)
  have "p = patch s ! nat lv ! nat PID" using p by (simp add: get_patch_Inr_iff)
  then have "(patch s)[nat lv := (patch s ! nat lv)[nat PID := free_patch p]] = patch s"
    using c by (simp add: free_patch_id)
  then show ?thesis using p by (simp add: upd_patch_def)
qed

lemma freed_rel_refl: "freed_rel s s"
  by (simp add: freed_rel_def)

lemma free_patch_idem: "free_patch (free_patch p) = free_patch p"
  by (simp add: free_patch_id free_patch_clean)

lemma freed_rel_trans:
  assumes "freed_rel a b" and "freed_rel b c" shows "freed_rel a c"
proof -
  have "patch c ! l ! i = patch a ! l ! i \<or> patch c ! l ! i = free_patch (patch a ! l ! i)"
    if "l < length (patch a)" "i < length (patch a ! l)" for l i
  proof -
    have 1: "patch b ! l ! i = patch a ! l ! i \<or> patch b ! l ! i = free_patch (patch a ! l ! i)"
      using assms(1) that by (simp add: freed_rel_def)
    have 2: "patch c ! l ! i = patch b ! l ! i \<or> patch c ! l ! i = free_patch (patch b ! l ! i)"
      using assms that by (simp add: freed_rel_def)
    from 1 2 show ?thesis by (auto simp: free_patch_idem)
  qed
  then show ?thesis using assms by (simp add: freed_rel_def)
qed

lemma upd_free_rel:
  assumes "upd_patch free_patch lv PID s = Inr s'" shows "freed_rel s s'"
proof -
  from assms obtain p where p: "get_patch s lv PID = Inr p"
    and s': "s' = s\<lparr>patch := (patch s)[nat lv := (patch s ! nat lv)[nat PID := free_patch p]]\<rparr>"
    by (auto simp: upd_patch_Inr_iff)
  show ?thesis using p unfolding s' freed_rel_def
    by (auto simp: get_patch_Inr_iff nth_list_update)
qed

lemma upd_free_clean_at:
  assumes "upd_patch free_patch lv PID s = Inr s'" shows "clean_at s' lv PID"
proof -
  from assms obtain p where p: "get_patch s lv PID = Inr p"
    and s': "s' = s\<lparr>patch := (patch s)[nat lv := (patch s ! nat lv)[nat PID := free_patch p]]\<rparr>"
    by (auto simp: upd_patch_Inr_iff)
  have "get_patch s' lv PID = Inr (free_patch p)"
    using p unfolding s' by (simp add: get_patch_Inr_iff)
  then show ?thesis by (simp add: clean_at_def free_patch_clean)
qed

lemma clean_at_iff:
  "clean_at s l i \<longleftrightarrow>
     0 \<le> l \<and> nat l < length (patch s) \<and> 0 \<le> i \<and> nat i < length (patch s ! nat l) \<and>
     patch_clean (patch s ! nat l ! nat i)"
proof (cases "get_patch s l i")
  case (Inl e)
  then show ?thesis using get_patch_Inr_iff [of s l i] by (auto simp: clean_at_def)
next
  case (Inr p)
  then show ?thesis using get_patch_Inr_iff [of s l i p] by (auto simp: clean_at_def)
qed

lemma freed_rel_clean_at:
  assumes "freed_rel s s'" and "clean_at s l i" shows "clean_at s' l i"
proof -
  from assms(2) have l: "nat l < length (patch s)" and i: "nat i < length (patch s ! nat l)"
    and c: "patch_clean (patch s ! nat l ! nat i)" and nn: "0 \<le> l" "0 \<le> i"
    by (auto simp: clean_at_iff)
  from assms(1) l i have len: "length (patch s') = length (patch s)"
    "length (patch s' ! nat l) = length (patch s ! nat l)"
    and d: "patch s' ! nat l ! nat i = patch s ! nat l ! nat i \<or>
            patch s' ! nat l ! nat i = free_patch (patch s ! nat l ! nat i)"
    by (auto simp: freed_rel_def)
  from d c have "patch_clean (patch s' ! nat l ! nat i)" by (auto simp: free_patch_clean)
  then show ?thesis using l i nn len by (auto simp: clean_at_iff)
qed

lemma efold_unit_iff:
  "efold (\<lambda>x _. g x) xs () = Inr () \<longleftrightarrow> (\<forall>x \<in> set xs. g x = Inr ())"
  by (induction xs) (auto simp: ebind_Inr_iff)

lemma emap_Inr_iff:
  "emap f xs = Inr ys \<longleftrightarrow> length ys = length xs \<and> (\<forall>i < length xs. f (xs ! i) = Inr (ys ! i))"
proof (induction xs arbitrary: ys)
  case Nil
  then show ?case by auto
next
  case (Cons x xs)
  show ?case
  proof (cases ys)
    case Nil
    then show ?thesis by (auto simp: ebind_Inr_iff)
  next
    case (Cons y ys')
    then show ?thesis using Cons.IH [of ys']
      by (auto simp: ebind_Inr_iff nth_Cons split: nat.splits)
  qed
qed

lemma check_patch_free_iff: "check_patch_free p = Inr () \<longleftrightarrow> patch_clean p"
  by (auto simp: check_patch_free_def patch_clean_def ebind_Inr_iff fatal_if_Inr_iff)

lemma check_clean_at_iff: "ebind (get_patch s l i) check_patch_free = Inr () \<longleftrightarrow> clean_at s l i"
  by (cases "get_patch s l i") (auto simp: clean_at_def check_patch_free_iff)

lemma check_level_free_iff: "check_level_free s TLv = Inr () \<longleftrightarrow> level_clean s TLv"
  by (cases "elem (num s) TLv")
     (auto simp: check_level_free_def level_clean_def efold_unit_iff check_clean_at_iff list_all_iff)

lemma scan_iff:
  "efold (\<lambda>TLv _. check_level_free s TLv) (filter (\<lambda>TLv. TLv \<ge> 0) [lv, lv - 1]) () = Inr ()
     \<longleftrightarrow> scan_clean s lv"
  unfolding efold_unit_iff scan_clean_def list_all_iff check_level_free_iff ..

text \<open>Loop 1.\<close>

lemma free_real_rel:
  assumes "efold (\<lambda>PID. upd_patch free_patch lv (int PID)) xs s = Inr s'"
  shows "freed_rel s s'"
  by (rule efold_invariant [OF assms, where I = "freed_rel s"])
     (auto intro: freed_rel_refl freed_rel_trans upd_free_rel)

lemma free_real_clean:
  assumes "efold (\<lambda>PID. upd_patch free_patch lv (int PID)) xs s = Inr s'"
  shows "\<forall>x \<in> set xs. clean_at s' lv (int x)"
  using assms
proof (induction xs arbitrary: s)
  case Nil
  then show ?case by simp
next
  case (Cons x xs)
  from Cons.prems obtain a where a: "upd_patch free_patch lv (int x) s = Inr a"
    and r: "efold (\<lambda>PID. upd_patch free_patch lv (int PID)) xs a = Inr s'"
    by (auto simp: ebind_Inr_iff)
  have "clean_at s' lv (int x)"
    using upd_free_clean_at [OF a] free_real_rel [OF r] by (rule freed_rel_clean_at [rotated])
  then show ?case using Cons.IH [OF r] by simp
qed

lemma free_real_noop:
  assumes "\<forall>x \<in> set xs. clean_at s lv (int x)"
  shows "efold (\<lambda>PID. upd_patch free_patch lv (int PID)) xs s = Inr s"
  using assms by (induction xs) (auto simp: upd_free_noop)

lemma free_buffer_alt:
  "free_buffer lv t TLv s =
     ebind (elem (R2B_Buff_NPatchTotal (Par s)) lv) (\<lambda>tot.
       efold (free_buffer_step lv t TLv) [0 ..< nat (fst_or_snd t tot)] s)"
  unfolding free_buffer_def free_buffer_step_def ..

lemma free_buffer_step_rel:
  "free_buffer_step lv t TLv p a = Inr b \<Longrightarrow> freed_rel a b"
  by (auto simp: free_buffer_step_def ebind_Inr_iff dest: upd_free_rel)

lemma free_steps_rel:
  assumes "efold (free_buffer_step lv t TLv) xs s = Inr s'" shows "freed_rel s s'"
  by (rule efold_invariant [OF assms, where I = "freed_rel s"])
     (auto intro: freed_rel_refl freed_rel_trans free_buffer_step_rel)

lemma PID_of_rel: "freed_rel s s' \<Longrightarrow> PID_of s' lv t p = PID_of s lv t p"
  by (simp add: PID_of_def freed_rel_def)

lemma free_steps_clean:
  assumes "efold (free_buffer_step lv t TLv) xs s = Inr s'"
  shows "\<forall>x \<in> set xs. \<exists>PID. PID_of s lv t x = Inr PID \<and> clean_at s' TLv PID"
  using assms
proof (induction xs arbitrary: s)
  case Nil
  then show ?case by simp
next
  case (Cons x xs)
  from Cons.prems obtain a where a: "free_buffer_step lv t TLv x s = Inr a"
    and r: "efold (free_buffer_step lv t TLv) xs a = Inr s'"
    by (auto simp: ebind_Inr_iff)
  from a obtain PID where P: "PID_of s lv t x = Inr PID"
    and u: "upd_patch free_patch TLv PID s = Inr a"
    by (auto simp: free_buffer_step_def PID_of_def ebind_Inr_iff)
  have "clean_at s' TLv PID"
    using upd_free_clean_at [OF u] free_steps_rel [OF r] by (rule freed_rel_clean_at [rotated])
  moreover have "PID_of a lv t y = PID_of s lv t y" for y
    using free_buffer_step_rel [OF a] by (rule PID_of_rel)
  ultimately show ?case using Cons.IH [OF r] P by simp
qed

lemma free_steps_noop:
  assumes "\<forall>x \<in> set xs. \<exists>PID. PID_of s lv t x = Inr PID \<and> clean_at s TLv PID"
  shows "efold (free_buffer_step lv t TLv) xs s = Inr s"
  using assms
proof (induction xs)
  case Nil
  then show ?case by simp
next
  case (Cons x xs)
  then obtain PID where "PID_of s lv t x = Inr PID" "clean_at s TLv PID" by auto
  then have "free_buffer_step lv t TLv x s = Inr s"
    by (auto simp: free_buffer_step_def PID_of_def ebind_Inr_iff upd_free_noop)
  then show ?case using Cons by simp
qed

lemma buffer_PIDs_iff:
  "buffer_PIDs s lv t = Inr pids \<longleftrightarrow>
     (\<exists>tot. elem (R2B_Buff_NPatchTotal (Par s)) lv = Inr tot \<and>
        length pids = nat (fst_or_snd t tot) \<and>
        (\<forall>p < nat (fst_or_snd t tot). PID_of s lv t p = Inr (pids ! p)))"
  by (auto simp: buffer_PIDs_def PID_of_def ebind_Inr_iff emap_Inr_iff)

lemma free_buffer_clean:
  assumes "free_buffer lv t TLv s = Inr s'"
  shows "freed_rel s s' \<and> (\<exists>pids. buffer_PIDs s lv t = Inr pids \<and> list_all (clean_at s' TLv) pids)"
proof -
  from assms obtain tot where tot: "elem (R2B_Buff_NPatchTotal (Par s)) lv = Inr tot"
    and f: "efold (free_buffer_step lv t TLv) [0 ..< nat (fst_or_snd t tot)] s = Inr s'"
    by (auto simp: free_buffer_alt ebind_Inr_iff)
  have c: "\<forall>p < nat (fst_or_snd t tot). \<exists>PID. PID_of s lv t p = Inr PID \<and> clean_at s' TLv PID"
    using free_steps_clean [OF f] by simp
  define g where "g p = (case PID_of s lv t p of Inr PID \<Rightarrow> PID | Inl _ \<Rightarrow> 0)" for p
  define pids where "pids = map g [0 ..< nat (fst_or_snd t tot)]"
  have "buffer_PIDs s lv t = Inr pids"
    unfolding buffer_PIDs_iff using tot c by (auto simp: pids_def g_def)
  moreover have "list_all (clean_at s' TLv) pids"
    using c by (auto simp: pids_def g_def list_all_iff)
  ultimately show ?thesis using free_steps_rel [OF f] by blast
qed

lemma free_buffer_noop:
  assumes "buffer_PIDs s lv t = Inr pids" and "list_all (clean_at s TLv) pids"
  shows "free_buffer lv t TLv s = Inr s"
proof -
  from assms(1) obtain tot where tot: "elem (R2B_Buff_NPatchTotal (Par s)) lv = Inr tot"
    and len: "length pids = nat (fst_or_snd t tot)"
    and P: "\<forall>p < nat (fst_or_snd t tot). PID_of s lv t p = Inr (pids ! p)"
    by (auto simp: buffer_PIDs_iff)
  have "\<forall>x \<in> set [0 ..< nat (fst_or_snd t tot)]. \<exists>PID. PID_of s lv t x = Inr PID \<and> clean_at s TLv PID"
    using P len assms(2) by (auto simp: list_all_length)
  then show ?thesis using tot by (simp add: free_buffer_alt free_steps_noop)
qed

lemma buffer_PIDs_rel: "freed_rel s s' \<Longrightarrow> buffer_PIDs s' lv t = buffer_PIDs s lv t"
  by (simp add: buffer_PIDs_def freed_rel_def)

lemma release_result:
  assumes "Par_LB_CollectParticle2OneLevel_FreeMemory E lv SibBufPatch FaSibBufPatch s = Inr s'"
  shows "freed_rel s s'" and "released_clean s' lv SibBufPatch FaSibBufPatch"
    and "DEBUG_PARTICLE E \<Longrightarrow> scan_clean s' lv"
proof -
  from assms obtain n s1 s2 where n: "elem (NPatchComma s) lv = Inr n"
    and 1: "efold (\<lambda>PID. upd_patch free_patch lv (int PID)) [0 ..< nat n] s = Inr s1"
    and 2: "(if SibBufPatch then free_buffer lv 0 lv s1 else Inr s1) = Inr s2"
    and 3: "(if FaSibBufPatch \<and> lv - 1 \<ge> 0 then free_buffer lv 1 (lv - 1) s2 else Inr s2) = Inr s'"
    and 4: "(if DEBUG_PARTICLE E
            then efold (\<lambda>TLv _. check_level_free s' TLv) (filter (\<lambda>TLv. TLv \<ge> 0) [lv, lv - 1]) ()
            else Inr ()) = Inr ()"
    unfolding Par_LB_CollectParticle2OneLevel_FreeMemory_def by (auto simp: ebind_Inr_iff)
  have r1: "freed_rel s s1" using 1 by (rule free_real_rel)
  have r2: "freed_rel s1 s2" using 2 by (auto split: if_splits dest: free_buffer_clean intro: freed_rel_refl)
  have r3: "freed_rel s2 s'" using 3 by (auto split: if_splits dest: free_buffer_clean intro: freed_rel_refl)
  show rel: "freed_rel s s'" using r1 r2 r3 by (blast intro: freed_rel_trans)
  have r13: "freed_rel s1 s'" using r2 r3 by (rule freed_rel_trans)
  have a: "elem (NPatchComma s') lv = Inr n" using n rel by (simp add: freed_rel_def)
  have b: "list_all (\<lambda>PID. clean_at s' lv (int PID)) [0 ..< nat n]"
    using free_real_clean [OF 1] r13 by (auto simp: list_all_iff intro: freed_rel_clean_at)
  have c: "case buffer_PIDs s' lv 0 of Inr pids \<Rightarrow> list_all (clean_at s' lv) pids | Inl _ \<Rightarrow> False"
    if "SibBufPatch"
  proof -
    from that 2 have f: "free_buffer lv 0 lv s1 = Inr s2" by simp
    from free_buffer_clean [OF f] obtain pids where p: "buffer_PIDs s1 lv 0 = Inr pids"
      and q: "list_all (clean_at s2 lv) pids" by blast
    have "buffer_PIDs s' lv 0 = Inr pids" using p buffer_PIDs_rel [OF r13] by simp
    moreover have "list_all (clean_at s' lv) pids"
      using q r3 by (auto simp: list_all_iff intro: freed_rel_clean_at)
    ultimately show ?thesis by simp
  qed
  have d: "case buffer_PIDs s' lv 1 of Inr pids \<Rightarrow> list_all (clean_at s' (lv - 1)) pids | Inl _ \<Rightarrow> False"
    if "FaSibBufPatch \<and> lv - 1 \<ge> 0"
  proof -
    from that 3 have f: "free_buffer lv 1 (lv - 1) s2 = Inr s'" by simp
    from free_buffer_clean [OF f] obtain pids where p: "buffer_PIDs s2 lv 1 = Inr pids"
      and q: "list_all (clean_at s' (lv - 1)) pids" by blast
    have "buffer_PIDs s' lv 1 = Inr pids" using p buffer_PIDs_rel [OF r3] by simp
    then show ?thesis using q by simp
  qed
  show "released_clean s' lv SibBufPatch FaSibBufPatch"
    unfolding released_clean_def using a b c d by auto
  show "scan_clean s' lv" if "DEBUG_PARTICLE E"
  proof -
    from 4 that
    have "efold (\<lambda>TLv _. check_level_free s' TLv) (filter (\<lambda>TLv. TLv \<ge> 0) [lv, lv - 1]) () = Inr ()"
      by (simp only: if_True)
    then show ?thesis by (simp only: scan_iff)
  qed
qed

lemma release_noop:
  assumes "released_clean s lv SibBufPatch FaSibBufPatch"
    and "DEBUG_PARTICLE E \<Longrightarrow> scan_clean s lv"
  shows "Par_LB_CollectParticle2OneLevel_FreeMemory E lv SibBufPatch FaSibBufPatch s = Inr s"
proof -
  from assms(1) obtain n where n: "elem (NPatchComma s) lv = Inr n"
    and b: "list_all (\<lambda>PID. clean_at s lv (int PID)) [0 ..< nat n]"
    by (auto simp: released_clean_def split: sum.splits)
  have 1: "efold (\<lambda>PID. upd_patch free_patch lv (int PID)) [0 ..< nat n] s = Inr s"
    using b by (intro free_real_noop) (simp add: list_all_iff)
  have 2: "(if SibBufPatch then free_buffer lv 0 lv s else Inr s) = Inr s"
    using assms(1) by (auto simp: released_clean_def split: sum.splits intro: free_buffer_noop)
  have 3: "(if FaSibBufPatch \<and> lv - 1 \<ge> 0 then free_buffer lv 1 (lv - 1) s else Inr s) = Inr s"
    using assms(1) by (auto simp: released_clean_def split: sum.splits intro: free_buffer_noop)
  have 4: "(if DEBUG_PARTICLE E
            then efold (\<lambda>TLv _. check_level_free s TLv) (filter (\<lambda>TLv. TLv \<ge> 0) [lv, lv - 1]) ()
            else Inr ()) = Inr ()"
  proof (cases "DEBUG_PARTICLE E")
    case True
    then have "scan_clean s lv" by (rule assms(2))
    then show ?thesis using True by (simp only: scan_iff if_True)
  next
    case False
    then show ?thesis by (simp only: if_False)
  qed
  show ?thesis
    unfolding Par_LB_CollectParticle2OneLevel_FreeMemory_def
    by (simp only: n ebind_Inr 1 2 3 4)
qed

lemma release_idem:
  assumes "Par_LB_CollectParticle2OneLevel_FreeMemory E lv SibBufPatch FaSibBufPatch s = Inr s'"
  shows "Par_LB_CollectParticle2OneLevel_FreeMemory E lv SibBufPatch FaSibBufPatch s' = Inr s'"
  using release_result [OF assms] by (intro release_noop) auto

section \<open>Properties of the release\<close>

text \<open>
  C9, as amended. After \<open>Par_LB_CollectParticle2OneLevel_FreeMemory\<close> has returned, every
  patch it visits (the real patches at the level, and the buffer patches of the lists that
  the two flags select) has \<open>NPar_Copy = -1\<close> and four null pointers; in a diagnostic
  build, moreover, every patch, real or buffer, at the level and at the level below it has,
  since the scan at the end of the function did not stop the run.
\<close>

theorem release_postcondition:
  assumes "Par_LB_CollectParticle2OneLevel_FreeMemory E lv SibBufPatch FaSibBufPatch s = Inr s'"
  shows "released_clean s' lv SibBufPatch FaSibBufPatch \<and> (DEBUG_PARTICLE E \<longrightarrow> scan_clean s' lv)"
  using release_result [OF assms] by simp

theorem release_postcondition_witness:
  "Par_LB_CollectParticle2OneLevel_FreeMemory demo_env 0 True False demo_collected_buffer
     = Inr demo_amr \<and>
   DEBUG_PARTICLE demo_env \<and> released_clean demo_amr 0 True False \<and> scan_clean demo_amr 0"
proof -
  have h: "Par_LB_CollectParticle2OneLevel_FreeMemory demo_env 0 True False demo_collected_buffer
             = Inr demo_amr"
    by code_simp
  have d: "DEBUG_PARTICLE demo_env" by code_simp
  show ?thesis using release_postcondition [OF h] h d by simp
qed

text \<open>
  C9 as stated fails in a production build: released without its buffer patches, level 0
  keeps the shadow data of its buffer patch after the function has returned.
\<close>

theorem release_postcondition_counterexample:
  "Par_LB_CollectParticle2OneLevel_FreeMemory demo_env_production 0 False False demo_collected_buffer
     = Inr demo_released_real \<and>
   \<not> level_clean demo_released_real 0 \<and> \<not> clean_at demo_released_real 0 1"
  by code_simp

text \<open>
  C8, as amended. When every patch that the release visits is already clean, and, in a
  diagnostic build, the levels \<open>lv\<close> and \<open>lv - 1\<close> hold no shadow data at all, the release
  returns the state as it was. In every build a release that has returned can be repeated
  and changes nothing then.
\<close>

theorem release_noop_idempotent:
  "(released_clean s lv SibBufPatch FaSibBufPatch \<and> (DEBUG_PARTICLE E \<longrightarrow> scan_clean s lv) \<longrightarrow>
      Par_LB_CollectParticle2OneLevel_FreeMemory E lv SibBufPatch FaSibBufPatch s = Inr s) \<and>
   (Par_LB_CollectParticle2OneLevel_FreeMemory E lv SibBufPatch FaSibBufPatch s = Inr s' \<longrightarrow>
      Par_LB_CollectParticle2OneLevel_FreeMemory E lv SibBufPatch FaSibBufPatch s' = Inr s')"
  using release_noop [of s lv SibBufPatch FaSibBufPatch E]
    release_idem [of E lv SibBufPatch FaSibBufPatch s s'] by blast

theorem release_noop_idempotent_witness:
  "released_clean demo_amr 1 True True \<and> scan_clean demo_amr 1 \<and>
   Par_LB_CollectParticle2OneLevel_FreeMemory demo_env 1 True True demo_amr = Inr demo_amr \<and>
   Par_LB_CollectParticle2OneLevel_FreeMemory demo_env 0 True False demo_collected_buffer
     = Inr demo_amr \<and>
   Par_LB_CollectParticle2OneLevel_FreeMemory demo_env 0 True False demo_amr = Inr demo_amr"
proof -
  have a: "released_clean demo_amr 1 True True" by code_simp
  have b: "scan_clean demo_amr 1" by code_simp
  have c: "Par_LB_CollectParticle2OneLevel_FreeMemory demo_env 0 True False demo_collected_buffer
             = Inr demo_amr"
    by code_simp
  show ?thesis
    using release_noop_idempotent [of demo_amr 1 True True demo_env demo_amr]
      release_noop_idempotent [of demo_collected_buffer 0 True False demo_env demo_amr] a b c
    by simp
qed

text \<open>
  C8 as stated fails in a diagnostic build: every patch at level 1 is clean and no buffer
  list is selected, but the real patch 0 of level 0 holds the data of a collection to level
  0, and the scan at the end of the release stops the run.
\<close>

theorem release_noop_counterexample:
  "released_clean demo_collected 1 False False \<and> level_clean demo_collected 1 \<and>
   Par_LB_CollectParticle2OneLevel_FreeMemory demo_env 1 False False demo_collected
     = Inl (Aux_Error ParMassPos_Copy_Not_Null)"
  by code_simp

section \<open>The collection\<close>

subsection \<open>Steps 3 and 4: one particle, one record, one patch\<close>

lemma int32_Inr_iff: "int32 x = Inr y \<longleftrightarrow> fits32 x \<and> y = x"
  by (auto simp: int32_def fits32_def)

lemma iadd_Inr_iff: "iadd a b = Inr c \<longleftrightarrow> fits32 (a + b) \<and> c = a + b"
  by (auto simp: iadd_def int32_Inr_iff)

lemma imul_Inr_iff: "imul a b = Inr c \<longleftrightarrow> fits32 (a * b) \<and> c = a * b"
  by (auto simp: imul_def int32_Inr_iff)

lemma same_but_shadow_refl [simp]: "same_but_shadow p p"
  by (simp add: same_but_shadow_def)

lemma same_but_shadow_trans:
  "same_but_shadow p q \<Longrightarrow> same_but_shadow q r \<Longrightarrow> same_but_shadow p r"
  unfolding same_but_shadow_def by (cases p, cases q, cases r) simp

lemma same_but_shadow_fields:
  assumes "same_but_shadow p q"
  shows "NPar q = NPar p" "ParList q = ParList p" "son q = son p" "LB_Idx q = LB_Idx p"
    "corner q = corner p" "EdgeL q = EdgeL p" "EdgeR q = EdgeR p"
  using assms unfolding same_but_shadow_def by (cases p, cases q, simp)+

lemma same_but_shadow_upd [simp]:
  "same_but_shadow p (p\<lparr>NPar_Copy := c, ParMassPos_Copy := A\<rparr>)"
  "same_but_shadow p (p\<lparr>ParMassPos_Copy := A, NPar_Copy := c\<rparr>)"
  "same_but_shadow p (p\<lparr>NPar_Copy := c\<rparr>)"
  by (simp_all add: same_but_shadow_def)

lemma put_Inr_iff: "put xs i x = Inr ys \<longleftrightarrow> 0 \<le> i \<and> nat i < length xs \<and> ys = xs[nat i := x]"
  by (auto simp: put_def)

lemma accumulate_Inr_iff:
  "accumulate E tab recvN (m, i) (ps, fl) = Inr c \<longleftrightarrow>
     (\<exists>ow. elem tab m = Inr ow \<and> 0 \<le> ow \<and> nat ow < length ps \<and> i < length recvN \<and> i < length fl \<and>
        \<not> (DEBUG_PARTICLE E \<and> m = - 1) \<and> \<not> (DEBUG_PARTICLE E \<and> son (ps ! nat ow) = - 1) \<and>
        fits32 (NPar_Copy (ps ! nat ow) + recvN ! i) \<and>
        c = (ps[nat ow := add_count (ps ! nat ow) (recvN ! i)], fl[i := ow]))"
  unfolding accumulate_def add_count_def
  by (auto simp: ebind_Inr_iff elem_Inr_iff put_Inr_iff fatal_if_Inr_iff iadd_Inr_iff)

lemma add_count_zero [simp]: "add_count p 0 = p"
  by (simp add: add_count_def)

lemma add_count_add [simp]: "add_count (add_count p a) b = add_count p (a + b)"
  by (simp add: add_count_def)

lemma add_count_fields [simp]:
  "son (add_count p a) = son p" "NPar (add_count p a) = NPar p"
  "NPar_Copy (add_count p a) = NPar_Copy p + a"
  "ParMassPos_Copy (add_count p a) = ParMassPos_Copy p"
  by (simp_all add: add_count_def)

text \<open>The loop of step 3-2 over the records \<open>xs\<close>, the match of record \<open>i\<close> being \<open>g i\<close>.\<close>

lemma accumulate_loop:
  assumes "efold (\<lambda>i. accumulate E tab recvN (g i, i)) xs (ps, fl) = Inr (ps', fl')"
  shows "length ps' = length ps \<and> length fl' = length fl \<and>
     (\<forall>k < length ps. ps' ! k =
        add_count (ps ! k)
          (sum_list (map (\<lambda>i. recvN ! i) (filter (\<lambda>i. elem tab (g i) = Inr (int k)) xs)))) \<and>
     (\<forall>i \<in> set xs. i < length fl \<and> i < length recvN \<and>
        (\<exists>ow. elem tab (g i) = Inr ow \<and> 0 \<le> ow \<and> nat ow < length ps \<and> fl' ! i = ow \<and>
           (DEBUG_PARTICLE E \<longrightarrow> g i \<noteq> - 1 \<and> son (ps ! nat ow) \<noteq> - 1))) \<and>
     (\<forall>j < length fl. j \<notin> set xs \<longrightarrow> fl' ! j = fl ! j)"
  using assms
proof (induction xs arbitrary: ps fl)
  case Nil
  then show ?case by simp
next
  case (Cons i xs)
  from Cons.prems obtain c where c: "accumulate E tab recvN (g i, i) (ps, fl) = Inr c"
    and r: "efold (\<lambda>i. accumulate E tab recvN (g i, i)) xs c = Inr (ps', fl')"
    by (auto simp: ebind_Inr_iff)
  from c obtain ow where ow: "elem tab (g i) = Inr ow" "0 \<le> ow" "nat ow < length ps"
    "i < length recvN" "i < length fl"
    "\<not> (DEBUG_PARTICLE E \<and> g i = - 1)" "\<not> (DEBUG_PARTICLE E \<and> son (ps ! nat ow) = - 1)"
    and cdef: "c = (ps[nat ow := add_count (ps ! nat ow) (recvN ! i)], fl[i := ow])"
    unfolding accumulate_Inr_iff by blast
  define ps1 where "ps1 = ps[nat ow := add_count (ps ! nat ow) (recvN ! i)]"
  define fl1 where "fl1 = fl[i := ow]"
  have r': "efold (\<lambda>i. accumulate E tab recvN (g i, i)) xs (ps1, fl1) = Inr (ps', fl')"
    using r cdef by (simp add: ps1_def fl1_def)
  note IH = Cons.IH [OF r']
  have len: "length ps1 = length ps" "length fl1 = length fl" by (simp_all add: ps1_def fl1_def)
  have son1: "son (ps1 ! k) = son (ps ! k)" if "k < length ps" for k
    using that by (cases "k = nat ow") (simp_all add: ps1_def)
  have A: "length ps' = length ps \<and> length fl' = length fl" using IH len by simp
  have B: "ps' ! k = add_count (ps ! k)
      (sum_list (map (\<lambda>i. recvN ! i) (filter (\<lambda>i. elem tab (g i) = Inr (int k)) (i # xs))))"
    if k: "k < length ps" for k
  proof -
    have "ps' ! k = add_count (ps1 ! k)
        (sum_list (map (\<lambda>i. recvN ! i) (filter (\<lambda>i. elem tab (g i) = Inr (int k)) xs)))"
      using IH k len by simp
    moreover have "ps1 ! k = (if k = nat ow then add_count (ps ! k) (recvN ! i) else ps ! k)"
      using k by (simp add: ps1_def nth_list_update)
    moreover have "elem tab (g i) = Inr (int k) \<longleftrightarrow> k = nat ow"
      using ow(1,2) by auto
    ultimately show ?thesis by simp
  qed
  have C: "j < length fl \<and> j < length recvN \<and>
        (\<exists>ow. elem tab (g j) = Inr ow \<and> 0 \<le> ow \<and> nat ow < length ps \<and> fl' ! j = ow \<and>
           (DEBUG_PARTICLE E \<longrightarrow> g j \<noteq> - 1 \<and> son (ps ! nat ow) \<noteq> - 1))"
    if j: "j \<in> set (i # xs)" for j
  proof (cases "j \<in> set xs")
    case True
    then show ?thesis using IH len son1 by auto
  next
    case False
    then have ji: "j = i" using j by simp
    have "fl' ! i = fl1 ! i" using IH False ji ow(5) len by simp
    then have "fl' ! i = ow" using ow(5) by (simp add: fl1_def)
    then show ?thesis using ow ji by auto
  qed
  have D: "fl' ! j = fl ! j" if "j < length fl" "j \<notin> set (i # xs)" for j
  proof -
    have "fl' ! j = fl1 ! j" using IH that len by simp
    then show ?thesis using that by (simp add: fl1_def)
  qed
  show ?case using A B C D by blast
qed

text \<open>The check of the home patch does not stop the run on a position inside the box.\<close>

lemma inside_not_outside: "inside L R pos \<Longrightarrow> \<not> outside L R pos"
  by (cases L, cases R, cases pos) (auto simp: inside_def outside_def fl_ge_def)

lemma cell_set4:
  "v < 4 \<Longrightarrow> v' < 4 \<Longrightarrow>
   cell (set4 A v (Some xs)) v' j =
     (if v' = v then (if j < length xs then Some (xs ! j) else None) else cell A v' j)"
  by (cases A) (auto simp: cell_def)

lemma write_cell_Inr:
  assumes "write_cell A v i x = Inr A'" and "v < 4"
  shows "0 \<le> i" and "cell A' v (nat i) = Some x"
    and "\<And>v' j. v' < 4 \<Longrightarrow> v' \<noteq> v \<or> j \<noteq> nat i \<Longrightarrow> cell A' v' j = cell A v' j"
    and "all4 (\<lambda>a. a \<noteq> None) A \<Longrightarrow> all4 (\<lambda>a. a \<noteq> None) A'"
proof -
  from assms(1) obtain xs where xs: "get4 A v = Some xs" and i: "0 \<le> i" "nat i < length xs"
    and A': "A' = set4 A v (Some (xs[nat i := x]))"
    by (auto simp: write_cell_def ebind_Inr_iff put_Inr_iff split: option.splits)
  show "0 \<le> i" by fact
  show "cell A' v (nat i) = Some x" using i assms(2) by (simp add: A' cell_set4)
  show "cell A' v' j = cell A v' j" if "v' < 4" "v' \<noteq> v \<or> j \<noteq> nat i" for v' j
  proof (cases "v' = v")
    case True
    then have "j \<noteq> nat i" using that by simp
    moreover have "cell A v j = (if j < length xs then Some (xs ! j) else None)"
      using xs by (simp add: cell_def)
    ultimately show ?thesis using True assms(2) by (simp add: A' cell_set4)
  next
    case False
    then show ?thesis using that assms(2) by (simp add: A' cell_set4)
  qed
  show "all4 (\<lambda>a. a \<noteq> None) A'" if "all4 (\<lambda>a. a \<noteq> None) A"
    using that unfolding A' by (cases A) auto
qed

lemma read_cell_Inr_iff: "read_cell A v i = Inr x \<longleftrightarrow> 0 \<le> i \<and> cell A v (nat i) = Some x"
  by (auto simp: read_cell_def cell_def elem_Inr_iff split: option.splits)

text \<open>The four writes of one particle.\<close>

lemma write_four:
  assumes "efold (\<lambda>v A'. ebind (src v) (write_cell A' v i)) [0, 1, 2, 3] A = Inr A'"
  shows "0 \<le> i" and "\<And>v. v < 4 \<Longrightarrow> \<exists>x. src v = Inr x \<and> cell A' v (nat i) = Some x"
    and "\<And>v j. v < 4 \<Longrightarrow> j \<noteq> nat i \<Longrightarrow> cell A' v j = cell A v j"
proof -
  from assms obtain x0 x1 x2 x3 A0 A1 A2 where
    s: "src 0 = Inr x0" "src 1 = Inr x1" "src 2 = Inr x2" "src 3 = Inr x3" and
    w: "write_cell A 0 i x0 = Inr A0" "write_cell A0 1 i x1 = Inr A1"
       "write_cell A1 2 i x2 = Inr A2" "write_cell A2 3 i x3 = Inr A'"
    by (auto simp: ebind_Inr_iff)
  note w0 = write_cell_Inr [OF w(1)] and w1 = write_cell_Inr [OF w(2)]
    and w2 = write_cell_Inr [OF w(3)] and w3 = write_cell_Inr [OF w(4)]
  show "0 \<le> i" using w0(1) by simp
  have c0: "cell A' 0 (nat i) = Some x0" using w0(2) w1(3) [of 0] w2(3) [of 0] w3(3) [of 0] by simp
  have c1: "cell A' 1 (nat i) = Some x1" using w1(2) w2(3) [of 1] w3(3) [of 1] by simp
  have c2: "cell A' 2 (nat i) = Some x2" using w2(2) w3(3) [of 2] by simp
  have c3: "cell A' 3 (nat i) = Some x3" using w3(2) by simp
  show "\<exists>x. src v = Inr x \<and> cell A' v (nat i) = Some x" if "v < 4" for v
  proof -
    from that have "v = 0 \<or> v = 1 \<or> v = 2 \<or> v = 3" by arith
    then show ?thesis using s c0 c1 c2 c3 by auto
  qed
  show "cell A' v j = cell A v j" if "v < 4" "j \<noteq> nat i" for v j
    using that w0(3) [of v j] w1(3) [of v j] w2(3) [of v j] w3(3) [of v j] by simp
qed






lemma store_record_Inr:
  assumes "store_record E PredictPos data (f, n) (ps, ptr) = Inr (ps', ptr')"
  shows "0 \<le> f" and "nat f < length ps" and "DEBUG_PARTICLE E \<Longrightarrow> n > 0"
    and "\<exists>A. efold (store_particle E PredictPos data (EdgeL (ps ! nat f)) (EdgeR (ps ! nat f)))
               [NPar_Copy (ps ! nat f) .. NPar_Copy (ps ! nat f) + n - 1]
               (ParMassPos_Copy (ps ! nat f), ptr) = Inr (A, ptr') \<and>
             ps' = ps[nat f := (ps ! nat f)\<lparr>NPar_Copy := NPar_Copy (ps ! nat f) + n,
                                             ParMassPos_Copy := A\<rparr>]"
  using assms unfolding store_record_def
  by (auto simp: ebind_Inr_iff elem_Inr_iff fatal_if_Inr_iff iadd_Inr_iff)

lemma store_record_counts:
  assumes "store_record E PredictPos data (f, n) (ps, ptr) = Inr (ps', ptr')"
  shows "length ps' = length ps"
    and "\<And>k. k < length ps \<Longrightarrow> same_but_shadow (ps ! k) (ps' ! k) \<and>
           NPar_Copy (ps' ! k) = NPar_Copy (ps ! k) + (if f = int k then n else 0) \<and>
           (f \<noteq> int k \<longrightarrow> ps' ! k = ps ! k)"
proof -
  note sr = store_record_Inr [OF assms]
  from sr(4) obtain A where
    ps': "ps' = ps[nat f := (ps ! nat f)\<lparr>NPar_Copy := NPar_Copy (ps ! nat f) + n,
                                             ParMassPos_Copy := A\<rparr>]" by blast
  show "length ps' = length ps" by (simp add: ps')
  show "same_but_shadow (ps ! k) (ps' ! k) \<and>
           NPar_Copy (ps' ! k) = NPar_Copy (ps ! k) + (if f = int k then n else 0) \<and>
           (f \<noteq> int k \<longrightarrow> ps' ! k = ps ! k)" if "k < length ps" for k
  proof (cases "k = nat f")
    case True
    then have "f = int k" using sr(1) by simp
    then show ?thesis using that by (simp add: ps')
  next
    case False
    then have "f \<noteq> int k" by auto
    then show ?thesis using that False by (simp add: ps')
  qed
qed

text \<open>The loop of step 3-4 over the records \<open>xs\<close>: the counts and what stays.\<close>

lemma store_loop_counts:
  assumes "efold (store_record E PredictPos data) xs (ps, ptr) = Inr (ps', ptr')"
  shows "length ps' = length ps \<and>
     (\<forall>k < length ps. same_but_shadow (ps ! k) (ps' ! k) \<and>
        NPar_Copy (ps' ! k) = NPar_Copy (ps ! k) + sum_list (map snd (filter (\<lambda>fn. fst fn = int k) xs)) \<and>
        (int k \<notin> fst ` set xs \<longrightarrow> ps' ! k = ps ! k)) \<and>
     (\<forall>fn \<in> set xs. 0 \<le> fst fn \<and> nat (fst fn) < length ps \<and> (DEBUG_PARTICLE E \<longrightarrow> snd fn > 0))"
  using assms
proof (induction xs arbitrary: ps ptr)
  case Nil
  then show ?case by simp
next
  case (Cons fn xs)
  obtain f n where fn: "fn = (f, n)" by (cases fn)
  from Cons.prems obtain ps1 ptr1 where 1: "store_record E PredictPos data (f, n) (ps, ptr) = Inr (ps1, ptr1)"
    and r: "efold (store_record E PredictPos data) xs (ps1, ptr1) = Inr (ps', ptr')"
    by (auto simp: ebind_Inr_iff fn)
  note IH = Cons.IH [OF r] and sr = store_record_Inr [OF 1] and sc = store_record_counts [OF 1]
  have A: "length ps' = length ps" using IH sc(1) by simp
  have B: "same_but_shadow (ps ! k) (ps' ! k) \<and>
        NPar_Copy (ps' ! k) = NPar_Copy (ps ! k) + sum_list (map snd (filter (\<lambda>fn. fst fn = int k) (fn # xs))) \<and>
        (int k \<notin> fst ` set (fn # xs) \<longrightarrow> ps' ! k = ps ! k)" if k: "k < length ps" for k
  proof -
    have 2: "same_but_shadow (ps1 ! k) (ps' ! k)"
      "NPar_Copy (ps' ! k) = NPar_Copy (ps1 ! k) + sum_list (map snd (filter (\<lambda>fn. fst fn = int k) xs))"
      "int k \<notin> fst ` set xs \<longrightarrow> ps' ! k = ps1 ! k"
      using IH k sc(1) by simp_all
    from sc(2) [OF k] 2 show ?thesis
      by (auto simp: fn intro: same_but_shadow_trans)
  qed
  have C: "\<forall>fn \<in> set (fn # xs). 0 \<le> fst fn \<and> nat (fst fn) < length ps \<and> (DEBUG_PARTICLE E \<longrightarrow> snd fn > 0)"
    using IH sr(1,2,3) sc(1) by (auto simp: fn)
  show ?case using A B C by blast
qed

lemma cursor_0 [simp]: "cursor cs 0 = 0"
  by (simp add: cursor_def)

lemma cursor_Suc [simp]: "cursor (c # cs) (Suc t) = 4 * int (nat c) + cursor cs t"
  by (simp add: cursor_def)



lemma merge_particle_Inr:
  assumes "merge_particle E s cnt (q, ParID) A = Inr A'"
  shows "0 \<le> cnt + int q"
    and "\<And>v. v < 4 \<Longrightarrow> elem (ParVar (Par s) v) ParID = Inr (ParVar (Par s) v ! nat ParID) \<and>
           cell A' v (nat (cnt + int q)) = Some (ParVar (Par s) v ! nat ParID)"
    and "\<And>v j. v < 4 \<Longrightarrow> j \<noteq> nat (cnt + int q) \<Longrightarrow> cell A' v j = cell A v j"
proof -
  from assms have w: "efold (\<lambda>v A'. ebind (elem (ParVar (Par s) v) ParID) (write_cell A' v (cnt + int q)))
      [0, 1, 2, 3] A = Inr A'"
    unfolding merge_particle_def
    by (auto simp: ebind_Inr_iff iadd_Inr_iff PAR_MASS_def PAR_POSX_def PAR_POSY_def PAR_POSZ_def)
  show "0 \<le> cnt + int q" using write_four(1) [OF w] .
  show "elem (ParVar (Par s) v) ParID = Inr (ParVar (Par s) v ! nat ParID) \<and>
           cell A' v (nat (cnt + int q)) = Some (ParVar (Par s) v ! nat ParID)" if "v < 4" for v
    using write_four(2) [OF w that] by (auto simp: elem_Inr_iff)
  show "cell A' v j = cell A v j" if "v < 4" "j \<noteq> nat (cnt + int q)" for v j
    using write_four(3) [OF w that] .
qed

lemma merge_loop:
  assumes "efold (merge_particle E s cnt) qis A = Inr A'"
  shows "(\<forall>qi \<in> set qis. 0 \<le> cnt + int (fst qi)) \<and>
     (\<forall>v j. v < 4 \<longrightarrow> j \<notin> (\<lambda>qi. nat (cnt + int (fst qi))) ` set qis \<longrightarrow> cell A' v j = cell A v j) \<and>
     (distinct (map fst qis) \<longrightarrow>
        (\<forall>qi \<in> set qis. \<forall>v < 4.
           cell A' v (nat (cnt + int (fst qi))) = Some (ParVar (Par s) v ! nat (snd qi))))"
  using assms
proof (induction qis arbitrary: A)
  case Nil
  then show ?case by simp
next
  case (Cons qi qis)
  obtain q ParID where qi: "qi = (q, ParID)" by (cases qi)
  from Cons.prems obtain A1 where 1: "merge_particle E s cnt (q, ParID) A = Inr A1"
    and r: "efold (merge_particle E s cnt) qis A1 = Inr A'"
    by (auto simp: ebind_Inr_iff qi)
  note IH = Cons.IH [OF r] and mp = merge_particle_Inr [OF 1]
  have nn: "\<forall>qi \<in> set (qi # qis). 0 \<le> cnt + int (fst qi)" using IH mp(1) by (simp add: qi)
  have un: "cell A' v j = cell A v j"
    if "v < 4" "j \<notin> (\<lambda>qi. nat (cnt + int (fst qi))) ` set (qi # qis)" for v j
  proof -
    have "cell A' v j = cell A1 v j" using IH that by simp
    also have "\<dots> = cell A v j" using mp(3) [of v j] that by (simp add: qi)
    finally show ?thesis .
  qed
  have wr: "cell A' v (nat (cnt + int (fst x))) = Some (ParVar (Par s) v ! nat (snd x))"
    if d: "distinct (map fst (qi # qis))" and x: "x \<in> set (qi # qis)" and v: "v < 4" for x v
  proof (cases "x \<in> set qis")
    case True
    then show ?thesis using IH d v by simp
  next
    case False
    then have xq: "x = (q, ParID)" using x qi by simp
    have "nat (cnt + int q) \<notin> (\<lambda>qi. nat (cnt + int (fst qi))) ` set qis"
    proof
      assume "nat (cnt + int q) \<in> (\<lambda>qi. nat (cnt + int (fst qi))) ` set qis"
      then obtain y where y: "y \<in> set qis" "nat (cnt + int q) = nat (cnt + int (fst y))" by auto
      then have "cnt + int q = cnt + int (fst y)" using nn qi by (simp add: eq_nat_nat_iff)
      then have "q = fst y" by simp
      then show False using d y(1) qi by force
    qed
    then have "cell A' v (nat (cnt + int q)) = cell A1 v (nat (cnt + int q))" using IH v by simp
    then show ?thesis using mp(2) [OF v] xq by simp
  qed
  show ?case using nn un wr by blast
qed

lemma merge_patch_Inr:
  assumes "merge_patch E s p = Inr p'"
  shows "same_but_shadow p p'" and "NPar_Copy p' = NPar_Copy p + resident p"
    and "resident p = 0 \<Longrightarrow> p' = p"
    and "\<And>v i. v < 4 \<Longrightarrow> 0 \<le> i \<Longrightarrow> i < NPar_Copy p \<Longrightarrow>
           cell (ParMassPos_Copy p') v (nat i) = cell (ParMassPos_Copy p) v (nat i)"
    and "\<And>v q. v < 4 \<Longrightarrow> int q < resident p \<Longrightarrow>
           0 \<le> NPar_Copy p \<and> q < length (ParList p) \<and>
           cell (ParMassPos_Copy p') v (nat (NPar_Copy p) + q)
             = Some (ParVar (Par s) v ! nat (ParList p ! q))"
proof -
  have F: "p' = p \<and> resident p = 0" if "\<not> (son p \<noteq> - 1 \<and> NPar p > 0)"
    using assms that by (auto simp: merge_patch_def resident_def)
  have T: "\<exists>ids A. length ids = nat (NPar p) \<and>
      (\<forall>q < nat (NPar p). q < length (ParList p) \<and> ids ! q = ParList p ! q) \<and>
      efold (merge_particle E s (NPar_Copy p)) (zip [0 ..< nat (NPar p)] ids) (ParMassPos_Copy p) = Inr A \<and>
      p' = p\<lparr>ParMassPos_Copy := A, NPar_Copy := NPar_Copy p + NPar p\<rparr> \<and> resident p = NPar p"
    if "son p \<noteq> - 1 \<and> NPar p > 0"
    using assms that
    by (auto simp: merge_patch_def ebind_Inr_iff emap_Inr_iff elem_Inr_iff resident_def iadd_Inr_iff)
  show "same_but_shadow p p'" using F T by (cases "son p \<noteq> - 1 \<and> NPar p > 0") auto
  show "NPar_Copy p' = NPar_Copy p + resident p"
    using F T by (cases "son p \<noteq> - 1 \<and> NPar p > 0") auto
  show "p' = p" if "resident p = 0"
    using F that by (cases "son p \<noteq> - 1 \<and> NPar p > 0") (auto simp: resident_def)
  show "cell (ParMassPos_Copy p') v (nat i) = cell (ParMassPos_Copy p) v (nat i)"
    if "v < 4" "0 \<le> i" "i < NPar_Copy p" for v i
  proof (cases "son p \<noteq> - 1 \<and> NPar p > 0")
    case False
    then show ?thesis using F by simp
  next
    case True
    from T [OF True] obtain ids A where
      lp: "efold (merge_particle E s (NPar_Copy p)) (zip [0 ..< nat (NPar p)] ids) (ParMassPos_Copy p) = Inr A"
      and p': "p' = p\<lparr>ParMassPos_Copy := A, NPar_Copy := NPar_Copy p + NPar p\<rparr>" by blast
    have "nat i \<notin> (\<lambda>qi. nat (NPar_Copy p + int (fst qi))) ` set (zip [0 ..< nat (NPar p)] ids)"
      using that by (auto simp: eq_nat_nat_iff)
    then show ?thesis using merge_loop [OF lp] that by (simp add: p')
  qed
  show "0 \<le> NPar_Copy p \<and> q < length (ParList p) \<and>
           cell (ParMassPos_Copy p') v (nat (NPar_Copy p) + q)
             = Some (ParVar (Par s) v ! nat (ParList p ! q))"
    if v: "v < 4" and q: "int q < resident p" for v q
  proof -
    have True: "son p \<noteq> - 1 \<and> NPar p > 0" using q by (auto simp: resident_def split: if_splits)
    from T [OF True] obtain ids A where len: "length ids = nat (NPar p)"
      and idq: "\<forall>q < nat (NPar p). q < length (ParList p) \<and> ids ! q = ParList p ! q"
      and lp: "efold (merge_particle E s (NPar_Copy p)) (zip [0 ..< nat (NPar p)] ids) (ParMassPos_Copy p) = Inr A"
      and p': "p' = p\<lparr>ParMassPos_Copy := A, NPar_Copy := NPar_Copy p + NPar p\<rparr>"
      and res: "resident p = NPar p" by blast
    note L = merge_loop [OF lp]
    have q': "q < nat (NPar p)" using q res by simp
    have "(0, ids ! 0) \<in> set (zip [0 ..< nat (NPar p)] ids)"
      using True len by (auto simp: set_zip intro!: exI [of _ 0])
    then have c0: "0 \<le> NPar_Copy p" using L by force
    have mem: "(q, ids ! q) \<in> set (zip [0 ..< nat (NPar p)] ids)"
      using q' len by (auto simp: set_zip intro!: exI [of _ q])
    have "distinct (map fst (zip [0 ..< nat (NPar p)] ids))" using len by simp
    then have "cell A v (nat (NPar_Copy p + int q)) = Some (ParVar (Par s) v ! nat (ids ! q))"
      using L mem v by force
    moreover have "nat (NPar_Copy p + int q) = nat (NPar_Copy p) + q" using c0 by (simp add: nat_add_distrib)
    ultimately show ?thesis using idq q' c0 by (simp add: p')
  qed
qed

subsection \<open>Steps 3 and 4 on one rank\<close>

lemma efold_map: "efold f (map h xs) s = efold (\<lambda>x. f (h x)) xs s"
  by (induction xs arbitrary: s) (auto simp: ebind_def split: sum.splits)

lemma zip_map_same: "zip (map h xs) xs = map (\<lambda>x. (h x, x)) xs"
  by (induction xs) auto

lemma sum_filter_perm:
  assumes "distinct xs" and "set xs = {0 ..< N}"
  shows "sum_list (map f (filter P xs)) = (sum_list (map f (filter P [0 ..< N])) :: int)"
proof -
  have "sum_list (map f (filter P xs)) = sum f (set (filter P xs))"
    using assms(1) by (simp add: sum_list_distinct_conv_sum_set)
  also have "set (filter P xs) = set (filter P [0 ..< N])" using assms(2) by auto
  also have "sum f (set (filter P [0 ..< N])) = sum_list (map f (filter P [0 ..< N]))"
    by (simp add: sum_list_distinct_conv_sum_set)
  finally show ?thesis .
qed

lemma store_received_Inr:
  assumes "store_received E FaLv PredictPos JustCountNPar rb s = Inr s'"
  shows "\<exists>n ps IdxList tab ps1 fl ps3.
    elem (NPatchComma s) FaLv = Inr n \<and> elem (patch s) FaLv = Inr ps \<and> n \<le> int (length ps) \<and>
    elem (IdxList_Real (LB s)) FaLv = Inr IdxList \<and>
    elem (IdxList_Real_IdxTable (LB s)) FaLv = Inr tab \<and>
    efold (\<lambda>i. accumulate E tab (RecvBuf_NParEachPatch rb)
                 (match_index (take (nat n) IdxList) (RecvBuf_LBIdxEachPatch rb ! i), i))
      (sort_key (\<lambda>i. RecvBuf_LBIdxEachPatch rb ! i) [0 ..< length (RecvBuf_LBIdxEachPatch rb)])
      (map_real n seed ps, replicate (length (RecvBuf_NParEachPatch rb)) (- 1)) = Inr (ps1, fl) \<and>
    \<not> (DEBUG_PARTICLE E \<and> (\<exists>x \<in> set fl. x < 0 \<or> x \<ge> n)) \<and>
    (if \<not> JustCountNPar then
       \<exists>ps2 ptr qs.
         efold (store_record E PredictPos (RecvBuf_ParDataEachPatch rb))
           (zip fl (RecvBuf_NParEachPatch rb)) (map_real n allocate ps1, 0) = Inr (ps2, ptr) \<and>
         emap (merge_patch E s) (take (nat n) ps2) = Inr qs \<and> ps3 = qs @ drop (nat n) ps2
     else ps3 = ps1) \<and>
    s' = s\<lparr>patch := (patch s)[nat FaLv := ps3]\<rparr>"
proof (cases JustCountNPar)
  case True
  then show ?thesis
    using assms unfolding store_received_def Let_def Mis_Heapsort_def Mis_Matching_int_def
    by (auto simp: ebind_Inr_iff fatal_if_Inr_iff zip_map_same efold_map split: if_splits)
next
  case False
  then show ?thesis
    using assms unfolding store_received_def Let_def Mis_Heapsort_def Mis_Matching_int_def
    by (auto simp: ebind_Inr_iff fatal_if_Inr_iff zip_map_same efold_map split: if_splits)
qed

lemma map_real_nth:
  "k < length ps \<Longrightarrow> map_real n f ps ! k = (if int k < n then f (ps ! k) else ps ! k)"
  by (auto simp: map_real_def nth_append min_def)

lemma length_map_real [simp]: "length (map_real n f ps) = length ps"
  by (simp add: map_real_def)

lemma zip_as_map:
  "length xs = length ys \<Longrightarrow> zip xs ys = map (\<lambda>i. (xs ! i, ys ! i)) [0 ..< length ys]"
  by (rule nth_equalityI) auto

lemma sum_zip_filter:
  assumes "length xs = length ys"
  shows "sum_list (map snd (filter (\<lambda>kn. P (fst kn)) (zip xs ys)))
           = sum_list (map (\<lambda>i. ys ! i) (filter (\<lambda>i. P (xs ! i)) [0 ..< length ys]))"
  by (simp add: zip_as_map [OF assms] filter_map o_def)

lemma Heapsort_perm:
  "distinct (sort_key h [0 ..< N])" "set (sort_key h [0 ..< N]) = {0 ..< N}"
  by simp_all

text \<open>Steps 3-1 and 3-2: the counts after the loop over the sorted records, and the list \<open>FaPIDList\<close>.\<close>

lemma accumulate_sorted:
  fixes keys recvN :: "int list"
  assumes "efold (\<lambda>i. accumulate E tab recvN (g (keys ! i), i))
             (sort_key (\<lambda>i. keys ! i) [0 ..< length keys])
             (ps0, replicate (length recvN) (- 1)) = Inr (ps1, fl)"
    and "length keys = length recvN"
  shows "length ps1 = length ps0" and "length fl = length recvN"
    and "\<And>k. k < length ps0 \<Longrightarrow> ps1 ! k =
           add_count (ps0 ! k)
             (sum_list (map (\<lambda>i. recvN ! i)
                (filter (\<lambda>i. elem tab (g (keys ! i)) = Inr (int k)) [0 ..< length recvN])))"
    and "\<And>i. i < length recvN \<Longrightarrow>
           elem tab (g (keys ! i)) = Inr (fl ! i) \<and> 0 \<le> fl ! i \<and> nat (fl ! i) < length ps0 \<and>
           (DEBUG_PARTICLE E \<longrightarrow> g (keys ! i) \<noteq> - 1 \<and> son (ps0 ! nat (fl ! i)) \<noteq> - 1)"
proof -
  note L = accumulate_loop [OF assms(1)]
  show "length ps1 = length ps0" "length fl = length recvN" using L by simp_all
  show "ps1 ! k = add_count (ps0 ! k)
             (sum_list (map (\<lambda>i. recvN ! i)
                (filter (\<lambda>i. elem tab (g (keys ! i)) = Inr (int k)) [0 ..< length recvN])))"
    if "k < length ps0" for k
  proof -
    have "sum_list (map (\<lambda>i. recvN ! i) (filter (\<lambda>i. elem tab (g (keys ! i)) = Inr (int k))
             (sort_key (\<lambda>i. keys ! i) [0 ..< length keys])))
        = sum_list (map (\<lambda>i. recvN ! i) (filter (\<lambda>i. elem tab (g (keys ! i)) = Inr (int k))
             [0 ..< length recvN]))"
      by (rule sum_filter_perm) (simp_all add: assms(2))
    then show ?thesis using L that by simp
  qed
  show "elem tab (g (keys ! i)) = Inr (fl ! i) \<and> 0 \<le> fl ! i \<and> nat (fl ! i) < length ps0 \<and>
           (DEBUG_PARTICLE E \<longrightarrow> g (keys ! i) \<noteq> - 1 \<and> son (ps0 ! nat (fl ! i)) \<noteq> - 1)"
    if "i < length recvN" for i
  proof -
    have "i \<in> set (sort_key (\<lambda>i. keys ! i) [0 ..< length keys])" using that assms(2) by simp
    then show ?thesis using L by blast
  qed
qed

lemma owner_of_key_eq:
  assumes "elem (NPatchComma s) FaLv = Inr n" "elem (IdxList_Real (LB s)) FaLv = Inr IdxList"
    "elem (IdxList_Real_IdxTable (LB s)) FaLv = Inr tab"
  shows "owner_of_key s FaLv key = elem tab (match_index (take (nat n) IdxList) key)"
  by (simp add: owner_of_key_def assms)

lemma received_for_eq:
  assumes "length (RecvBuf_LBIdxEachPatch rb) = length (RecvBuf_NParEachPatch rb)"
  shows "received_for s FaLv rb PID =
     sum_list (map (\<lambda>i. RecvBuf_NParEachPatch rb ! i)
       (filter (\<lambda>i. owner_of_key s FaLv (RecvBuf_LBIdxEachPatch rb ! i) = Inr PID)
          [0 ..< length (RecvBuf_NParEachPatch rb)]))"
  unfolding received_for_def
  using sum_zip_filter [OF assms, of "\<lambda>key. owner_of_key s FaLv key = Inr PID"] by simp

lemma store_postD:
  assumes "store_post E FaLv JustCountNPar rb s s' n ps ps'"
  shows "elem (NPatchComma s) FaLv = Inr n" and "elem (patch s) FaLv = Inr ps"
    and "n \<le> int (length ps)"
    and "s' = s\<lparr>patch := (patch s)[nat FaLv := ps']\<rparr>" and "length ps' = length ps"
    and "\<And>k. k < length ps \<Longrightarrow> same_but_shadow (ps ! k) (ps' ! k)"
    and "\<And>k. k < length ps \<Longrightarrow> NPar_Copy (ps' ! k)
         = expected_count JustCountNPar (int k < n) (ps ! k) (received_for s FaLv rb (int k))"
    and "\<And>k. k < length ps \<Longrightarrow> JustCountNPar \<Longrightarrow> ParMassPos_Copy (ps' ! k) = ParMassPos_Copy (ps ! k)"
    and "\<And>k. k < length ps \<Longrightarrow>
           \<forall>key \<in> set (RecvBuf_LBIdxEachPatch rb). owner_of_key s FaLv key \<noteq> Inr (int k) \<Longrightarrow>
           int k < n \<longrightarrow> NPar_Copy (ps ! k) \<le> 0 \<and> son (ps ! k) = - 1 \<Longrightarrow> ps' ! k = ps ! k"
    and "\<And>key. key \<in> set (RecvBuf_LBIdxEachPatch rb) \<Longrightarrow> \<exists>ow.
       owner_of_key s FaLv key = Inr ow \<and> 0 \<le> ow \<and> nat ow < length ps \<and>
       (DEBUG_PARTICLE E \<longrightarrow> ow < n \<and> son (ps ! nat ow) \<noteq> - 1)"
    and "DEBUG_PARTICLE E \<Longrightarrow> \<not> JustCountNPar \<Longrightarrow> \<forall>c \<in> set (RecvBuf_NParEachPatch rb). 0 < c"
  using assms unfolding store_post_def by simp_all

lemma store_received_result:
  assumes sr: "store_received E FaLv PredictPos JustCountNPar rb s = Inr s'"
    and len: "length (RecvBuf_LBIdxEachPatch rb) = length (RecvBuf_NParEachPatch rb)"
  shows "\<exists>n ps ps'. store_post E FaLv JustCountNPar rb s s' n ps ps'"
proof -
  define keys where "keys = RecvBuf_LBIdxEachPatch rb"
  define recvN where "recvN = RecvBuf_NParEachPatch rb"
  have len': "length keys = length recvN" using len by (simp add: keys_def recvN_def)
  from store_received_Inr [OF sr] obtain n ps IdxList tab ps1 fl ps3 where
    n: "elem (NPatchComma s) FaLv = Inr n" and ps: "elem (patch s) FaLv = Inr ps"
    and nle: "n \<le> int (length ps)"
    and il: "elem (IdxList_Real (LB s)) FaLv = Inr IdxList"
    and tab: "elem (IdxList_Real_IdxTable (LB s)) FaLv = Inr tab"
    and acc: "efold (\<lambda>i. accumulate E tab recvN (match_index (take (nat n) IdxList) (keys ! i), i))
      (sort_key (\<lambda>i. keys ! i) [0 ..< length keys])
      (map_real n seed ps, replicate (length recvN) (- 1)) = Inr (ps1, fl)"
    and chk: "\<not> (DEBUG_PARTICLE E \<and> (\<exists>x \<in> set fl. x < 0 \<or> x \<ge> n))"
    and rest: "if \<not> JustCountNPar then
       \<exists>ps2 ptr qs.
         efold (store_record E PredictPos (RecvBuf_ParDataEachPatch rb))
           (zip fl recvN) (map_real n allocate ps1, 0) = Inr (ps2, ptr) \<and>
         emap (merge_patch E s) (take (nat n) ps2) = Inr qs \<and> ps3 = qs @ drop (nat n) ps2
     else ps3 = ps1"
    and s': "s' = s\<lparr>patch := (patch s)[nat FaLv := ps3]\<rparr>"
    unfolding keys_def recvN_def by blast
  define own where "own key = owner_of_key s FaLv key" for key
  have own: "own key = elem tab (match_index (take (nat n) IdxList) key)" for key
    unfolding own_def by (rule owner_of_key_eq [OF n il tab])
  define A where "A k = received_for s FaLv rb (int k)" for k
  have A: "A k = sum_list (map (\<lambda>i. recvN ! i) (filter (\<lambda>i. own (keys ! i) = Inr (int k)) [0 ..< length recvN]))"
    for k unfolding A_def own_def keys_def recvN_def by (rule received_for_eq [OF len])
  note S = accumulate_sorted [OF acc len', simplified]
  have l1: "length ps1 = length ps" using S(1) by simp
  have lfl: "length fl = length recvN" using S(2) .
  have p1: "ps1 ! k = add_count (if int k < n then seed (ps ! k) else ps ! k) (A k)"
    if "k < length ps" for k
    using S(3) [of k] that by (simp add: map_real_nth A own)
  have fl: "own (keys ! i) = Inr (fl ! i) \<and> 0 \<le> fl ! i \<and> nat (fl ! i) < length ps \<and>
      (DEBUG_PARTICLE E \<longrightarrow> fl ! i < n \<and> son (ps ! nat (fl ! i)) \<noteq> - 1)"
    if i: "i < length recvN" for i
  proof -
    note f = S(4) [OF i]
    have 1: "own (keys ! i) = Inr (fl ! i)" "0 \<le> fl ! i" "nat (fl ! i) < length ps"
      using f by (simp_all add: own)
    have "fl ! i < n \<and> son (ps ! nat (fl ! i)) \<noteq> - 1" if d: "DEBUG_PARTICLE E"
    proof -
      have "fl ! i \<in> set fl" using i lfl by simp
      then have lt: "fl ! i < n" using chk d by auto
      have "son (map_real n seed ps ! nat (fl ! i)) \<noteq> - 1" using f d by simp
      then show ?thesis using lt 1 by (simp add: map_real_nth seed_def split: if_splits)
    qed
    then show ?thesis using 1 by simp
  qed
  have keyfacts: "\<forall>key \<in> set keys. \<exists>ow.
       own key = Inr ow \<and> 0 \<le> ow \<and> nat ow < length ps \<and>
       (DEBUG_PARTICLE E \<longrightarrow> ow < n \<and> son (ps ! nat ow) \<noteq> - 1)"
  proof
    fix key assume "key \<in> set keys"
    then obtain i where "i < length keys" "key = keys ! i" by (auto simp: in_set_conv_nth)
    then show "\<exists>ow. own key = Inr ow \<and> 0 \<le> ow \<and> nat ow < length ps \<and>
       (DEBUG_PARTICLE E \<longrightarrow> ow < n \<and> son (ps ! nat ow) \<noteq> - 1)"
      using fl [of i] len' by auto
  qed
  have noA: "A k = 0" if "\<forall>key \<in> set keys. own key \<noteq> Inr (int k)" for k
  proof -
    have "filter (\<lambda>i. own (keys ! i) = Inr (int k)) [0 ..< length recvN] = []"
      using that len' by (auto simp: filter_empty_conv)
    then show ?thesis by (simp add: A)
  qed
  show ?thesis
  proof (cases JustCountNPar)
    case True
    then have ps3: "ps3 = ps1" using rest by simp
    have "same_but_shadow (ps ! k) (ps1 ! k) \<and>
       NPar_Copy (ps1 ! k) = expected_count True (int k < n) (ps ! k) (A k) \<and>
       ParMassPos_Copy (ps1 ! k) = ParMassPos_Copy (ps ! k) \<and>
       ((\<forall>key \<in> set keys. own key \<noteq> Inr (int k)) \<and>
        (int k < n \<longrightarrow> NPar_Copy (ps ! k) \<le> 0 \<and> son (ps ! k) = - 1) \<longrightarrow> ps1 ! k = ps ! k)"
      if k: "k < length ps" for k
      using p1 [OF k] noA [of k]
      by (auto simp: expected_count_def seed_def add_count_def same_but_shadow_def)
    then have per: "\<And>k. k < length ps \<Longrightarrow> same_but_shadow (ps ! k) (ps3 ! k) \<and>
       NPar_Copy (ps3 ! k)
         = expected_count JustCountNPar (int k < n) (ps ! k) (received_for s FaLv rb (int k)) \<and>
       (JustCountNPar \<longrightarrow> ParMassPos_Copy (ps3 ! k) = ParMassPos_Copy (ps ! k)) \<and>
       ((\<forall>key \<in> set (RecvBuf_LBIdxEachPatch rb). owner_of_key s FaLv key \<noteq> Inr (int k)) \<and>
        (int k < n \<longrightarrow> NPar_Copy (ps ! k) \<le> 0 \<and> son (ps ! k) = - 1) \<longrightarrow> ps3 ! k = ps ! k)"
      using True unfolding ps3 A_def own_def keys_def by simp
    have l3: "length ps3 = length ps" using l1 ps3 by simp
    have kf: "\<forall>key \<in> set (RecvBuf_LBIdxEachPatch rb). \<exists>ow.
       owner_of_key s FaLv key = Inr ow \<and> 0 \<le> ow \<and> nat ow < length ps \<and>
       (DEBUG_PARTICLE E \<longrightarrow> ow < n \<and> son (ps ! nat ow) \<noteq> - 1)"
      using keyfacts unfolding own_def keys_def by simp
    have pos': "DEBUG_PARTICLE E \<and> \<not> JustCountNPar \<longrightarrow> (\<forall>c \<in> set (RecvBuf_NParEachPatch rb). 0 < c)"
      using True by simp
    have per': "\<forall>k < length ps. same_but_shadow (ps ! k) (ps3 ! k) \<and>
       NPar_Copy (ps3 ! k)
         = expected_count JustCountNPar (int k < n) (ps ! k) (received_for s FaLv rb (int k)) \<and>
       (JustCountNPar \<longrightarrow> ParMassPos_Copy (ps3 ! k) = ParMassPos_Copy (ps ! k)) \<and>
       ((\<forall>key \<in> set (RecvBuf_LBIdxEachPatch rb). owner_of_key s FaLv key \<noteq> Inr (int k)) \<and>
        (int k < n \<longrightarrow> NPar_Copy (ps ! k) \<le> 0 \<and> son (ps ! k) = - 1) \<longrightarrow> ps3 ! k = ps ! k)"
      using per by simp
    have "store_post E FaLv JustCountNPar rb s s' n ps ps3"
      unfolding store_post_def
      by (intro conjI) (fact n, fact ps, fact nle, fact s', fact l3, fact per', fact kf, fact pos')
    then show ?thesis by blast
  next
    case False
    from rest False obtain ps2 ptr qs where
      st: "efold (store_record E PredictPos (RecvBuf_ParDataEachPatch rb))
           (zip fl recvN) (map_real n allocate ps1, 0) = Inr (ps2, ptr)"
      and mg: "emap (merge_patch E s) (take (nat n) ps2) = Inr qs"
      and ps3: "ps3 = qs @ drop (nat n) ps2" by auto
    note SL = store_loop_counts [OF st]
    have l2: "length ps2 = length ps" using SL l1 by simp
    have sumfl: "sum_list (map snd (filter (\<lambda>fn. fst fn = int k) (zip fl recvN))) = A k" for k
    proof -
      have "sum_list (map snd (filter (\<lambda>fn. fst fn = int k) (zip fl recvN)))
          = sum_list (map (\<lambda>i. recvN ! i) (filter (\<lambda>i. fl ! i = int k) [0 ..< length recvN]))"
        using sum_zip_filter [OF lfl, of "\<lambda>f. f = int k"] by simp
      also have "filter (\<lambda>i. fl ! i = int k) [0 ..< length recvN]
          = filter (\<lambda>i. own (keys ! i) = Inr (int k)) [0 ..< length recvN]"
        by (rule filter_cong) (use fl in auto)
      finally show ?thesis by (simp add: A)
    qed
    have p2: "same_but_shadow (ps1 ! k) (ps2 ! k) \<and>
        NPar_Copy (ps2 ! k) = (if int k < n \<and> NPar_Copy (ps1 ! k) > 0 then 0 else NPar_Copy (ps1 ! k)) + A k \<and>
        ((\<forall>key \<in> set keys. own key \<noteq> Inr (int k)) \<and> \<not> (int k < n \<and> NPar_Copy (ps1 ! k) > 0)
           \<longrightarrow> ps2 ! k = ps1 ! k)"
      if k: "k < length ps" for k
    proof -
      define a where "a = map_real n allocate ps1 ! k"
      have a: "a = (if int k < n then allocate (ps1 ! k) else ps1 ! k)"
        using k l1 by (simp add: a_def map_real_nth)
      have 1: "same_but_shadow a (ps2 ! k)"
        "NPar_Copy (ps2 ! k) = NPar_Copy a + A k"
        "int k \<notin> fst ` set (zip fl recvN) \<longrightarrow> ps2 ! k = a"
        using SL k l1 sumfl [of k] by (simp_all add: a_def)
      have 2: "same_but_shadow (ps1 ! k) a" by (simp add: a allocate_def)
      have 3: "NPar_Copy a = (if int k < n \<and> NPar_Copy (ps1 ! k) > 0 then 0 else NPar_Copy (ps1 ! k))"
        by (simp add: a allocate_def)
      have 4: "int k \<notin> fst ` set (zip fl recvN)" if "\<forall>key \<in> set keys. own key \<noteq> Inr (int k)"
      proof
        assume "int k \<in> fst ` set (zip fl recvN)"
        then obtain i where "i < length recvN" "fl ! i = int k"
          using lfl by (auto simp: set_zip)
        then have "own (keys ! i) = Inr (int k)" using fl [of i] by simp
        moreover have "keys ! i \<in> set keys" using \<open>i < length recvN\<close> len' by simp
        ultimately show False using that by blast
      qed
      have 5: "a = ps1 ! k" if "\<not> (int k < n \<and> NPar_Copy (ps1 ! k) > 0)"
        using that by (auto simp: a allocate_def)
      show ?thesis using 1 2 3 4 5 by (auto intro: same_but_shadow_trans)
    qed
    have lq: "length qs = nat n" and
      q: "\<And>k. k < nat n \<Longrightarrow> merge_patch E s (ps2 ! k) = Inr (qs ! k)"
      using mg nle l2 by (auto simp: emap_Inr_iff)
    have p3: "same_but_shadow (ps2 ! k) (ps3 ! k) \<and>
        NPar_Copy (ps3 ! k) = NPar_Copy (ps2 ! k) + (if int k < n then resident (ps2 ! k) else 0) \<and>
        (\<not> (int k < n \<and> resident (ps2 ! k) \<noteq> 0) \<longrightarrow> ps3 ! k = ps2 ! k)"
      if k: "k < length ps" for k
    proof (cases "int k < n")
      case True
      then have kn: "k < nat n" by simp
      then have "ps3 ! k = qs ! k" using lq by (simp add: ps3 nth_append)
      then show ?thesis using merge_patch_Inr(1,2,3) [OF q [OF kn]] True by auto
    next
      case False
      then have "ps3 ! k = ps2 ! k" using lq k l2 nle by (simp add: ps3 nth_append)
      then show ?thesis using False by simp
    qed
    have l3: "length ps3 = length ps" using lq l2 nle by (simp add: ps3)
    have fin: "same_but_shadow (ps ! k) (ps3 ! k) \<and>
       NPar_Copy (ps3 ! k) = expected_count False (int k < n) (ps ! k) (A k) \<and>
       ((\<forall>key \<in> set keys. own key \<noteq> Inr (int k)) \<and>
        (int k < n \<longrightarrow> NPar_Copy (ps ! k) \<le> 0 \<and> son (ps ! k) = - 1) \<longrightarrow> ps3 ! k = ps ! k)"
      if k: "k < length ps" for k
    proof -
      note a = p1 [OF k] and b = p2 [OF k] and c = p3 [OF k]
      have sb1: "same_but_shadow (ps ! k) (ps1 ! k)"
        by (simp add: a seed_def add_count_def)
      have sb: "same_but_shadow (ps ! k) (ps2 ! k)" using sb1 b by (blast intro: same_but_shadow_trans)
      have res: "resident (ps2 ! k) = resident (ps ! k)"
        using same_but_shadow_fields(1,3) [OF sb] by (simp add: resident_def)
      have c1: "NPar_Copy (ps1 ! k) = (if int k < n \<and> son (ps ! k) \<noteq> - 1 then NPar (ps ! k) else NPar_Copy (ps ! k)) + A k"
        by (simp add: a seed_def)
      have "NPar_Copy (ps3 ! k) = expected_count False (int k < n) (ps ! k) (A k)"
        using b c c1 res by (simp add: expected_count_def Let_def)
      moreover have "same_but_shadow (ps ! k) (ps3 ! k)" using sb c by (blast intro: same_but_shadow_trans)
      moreover have "ps3 ! k = ps ! k"
        if u: "\<forall>key \<in> set keys. own key \<noteq> Inr (int k)"
          "int k < n \<longrightarrow> NPar_Copy (ps ! k) \<le> 0 \<and> son (ps ! k) = - 1"
      proof -
        have A0: "A k = 0" using noA u(1) by simp
        have e1: "ps1 ! k = ps ! k" using a u(2) A0 by (simp add: seed_def)
        have e2: "ps2 ! k = ps1 ! k" using b u e1 by auto
        have "resident (ps ! k) = 0 \<or> \<not> int k < n" using u(2) by (auto simp: resident_def)
        then have "ps3 ! k = ps2 ! k" using c res by auto
        then show ?thesis using e1 e2 by simp
      qed
      ultimately show ?thesis by blast
    qed
    have pos: "\<forall>c \<in> set recvN. 0 < c" if "DEBUG_PARTICLE E"
    proof
      fix c assume "c \<in> set recvN"
      then obtain i where "i < length recvN" "c = recvN ! i" by (auto simp: in_set_conv_nth)
      then have "(fl ! i, c) \<in> set (zip fl recvN)" using lfl by (auto simp: set_zip)
      then show "0 < c" using SL that by force
    qed
    have per: "\<And>k. k < length ps \<Longrightarrow> same_but_shadow (ps ! k) (ps3 ! k) \<and>
       NPar_Copy (ps3 ! k)
         = expected_count JustCountNPar (int k < n) (ps ! k) (received_for s FaLv rb (int k)) \<and>
       (JustCountNPar \<longrightarrow> ParMassPos_Copy (ps3 ! k) = ParMassPos_Copy (ps ! k)) \<and>
       ((\<forall>key \<in> set (RecvBuf_LBIdxEachPatch rb). owner_of_key s FaLv key \<noteq> Inr (int k)) \<and>
        (int k < n \<longrightarrow> NPar_Copy (ps ! k) \<le> 0 \<and> son (ps ! k) = - 1) \<longrightarrow> ps3 ! k = ps ! k)"
      using fin False unfolding A_def own_def keys_def by simp
    have kf: "\<forall>key \<in> set (RecvBuf_LBIdxEachPatch rb). \<exists>ow.
       owner_of_key s FaLv key = Inr ow \<and> 0 \<le> ow \<and> nat ow < length ps \<and>
       (DEBUG_PARTICLE E \<longrightarrow> ow < n \<and> son (ps ! nat ow) \<noteq> - 1)"
      using keyfacts unfolding own_def keys_def by simp
    have pos': "DEBUG_PARTICLE E \<and> \<not> JustCountNPar \<longrightarrow> (\<forall>c \<in> set (RecvBuf_NParEachPatch rb). 0 < c)"
      using pos unfolding recvN_def by simp
    have per': "\<forall>k < length ps. same_but_shadow (ps ! k) (ps3 ! k) \<and>
       NPar_Copy (ps3 ! k)
         = expected_count JustCountNPar (int k < n) (ps ! k) (received_for s FaLv rb (int k)) \<and>
       (JustCountNPar \<longrightarrow> ParMassPos_Copy (ps3 ! k) = ParMassPos_Copy (ps ! k)) \<and>
       ((\<forall>key \<in> set (RecvBuf_LBIdxEachPatch rb). owner_of_key s FaLv key \<noteq> Inr (int k)) \<and>
        (int k < n \<longrightarrow> NPar_Copy (ps ! k) \<le> 0 \<and> son (ps ! k) = - 1) \<longrightarrow> ps3 ! k = ps ! k)"
      using per by simp
    have "store_post E FaLv JustCountNPar rb s s' n ps ps3"
      unfolding store_post_def
      by (intro conjI) (fact n, fact ps, fact nle, fact s', fact l3, fact per', fact kf, fact pos')
    then show ?thesis by blast
  qed
qed




subsection \<open>The frame of the buffer calls, and the call step by step\<close>

lemma shadow_frame_refl: "shadow_frame W s s"
  by (simp add: shadow_frame_def)

lemma shadow_frame_trans:
  assumes "shadow_frame W1 a b" and "shadow_frame W2 b c"
    and "\<And>l i. W1 l i \<or> W2 l i \<Longrightarrow> W l i"
  shows "shadow_frame W a c"
proof -
  have "(W l i \<longrightarrow> same_but_shadow (patch a ! l ! i) (patch c ! l ! i)) \<and>
        (\<not> W l i \<longrightarrow> patch c ! l ! i = patch a ! l ! i)"
    if "l < length (patch a)" "i < length (patch a ! l)" for l i
  proof -
    have 1: "(W1 l i \<longrightarrow> same_but_shadow (patch a ! l ! i) (patch b ! l ! i)) \<and>
        (\<not> W1 l i \<longrightarrow> patch b ! l ! i = patch a ! l ! i)"
      using assms(1) that by (simp add: shadow_frame_def)
    have 2: "(W2 l i \<longrightarrow> same_but_shadow (patch b ! l ! i) (patch c ! l ! i)) \<and>
        (\<not> W2 l i \<longrightarrow> patch c ! l ! i = patch b ! l ! i)"
      using assms(1,2) that by (simp add: shadow_frame_def)
    have 3: "same_but_shadow (patch a ! l ! i) (patch c ! l ! i)"
      using 1 2 by (cases "W1 l i"; cases "W2 l i") (auto intro: same_but_shadow_trans)
    have 4: "patch c ! l ! i = patch a ! l ! i" if "\<not> W l i"
      using 1 2 assms(3) [of l i] that by auto
    show ?thesis using 3 4 by blast
  qed
  then show ?thesis using assms(1,2) by (simp add: shadow_frame_def)
qed

lemma is_buffer_frame: "shadow_frame W s s' \<Longrightarrow> is_buffer s' l i = is_buffer s l i"
  by (simp add: is_buffer_def shadow_frame_def)

text \<open>The calls for the buffer patches, under the frame condition on the absent routine.\<close>

lemma collect_buffers_frame:
  assumes "collect_buffers E FaLv PredictPos TargetTime SibBufPatch FaSibBufPatch JustCountNPar ss = Inr ss'"
    and "collector_frame E"
  shows "length ss' = length ss"
    and "\<And>r. r < length ss \<Longrightarrow>
           shadow_frame (\<lambda>l i. (int l = FaLv \<or> int l = FaLv - 1) \<and> is_buffer (ss ! r) l i)
             (ss ! r) (ss' ! r)"
proof -
  from assms(1) obtain ss1 where
    1: "(if SibBufPatch \<and> \<not> JustCountNPar
            then Par_LB_CollectParticleFromRealPatch E FaLv FaLv 0 PredictPos TargetTime ss
            else Inr ss) = Inr ss1"
    and 2: "(if FaSibBufPatch \<and> FaLv > 0 \<and> \<not> JustCountNPar
       then Par_LB_CollectParticleFromRealPatch E (FaLv - 1) FaLv 1 PredictPos TargetTime ss1
       else Inr ss1) = Inr ss'"
    unfolding collect_buffers_def by (auto simp: ebind_Inr_iff)
  have a: "length ss1 = length ss \<and>
      (\<forall>r < length ss. shadow_frame (\<lambda>l i. int l = FaLv \<and> is_buffer (ss ! r) l i) (ss ! r) (ss1 ! r))"
    using 1 assms(2) unfolding collector_frame_def
    by (cases "SibBufPatch \<and> \<not> JustCountNPar") (auto simp: shadow_frame_refl)
  have b: "length ss' = length ss1 \<and>
      (\<forall>r < length ss1. shadow_frame (\<lambda>l i. int l = FaLv - 1 \<and> is_buffer (ss1 ! r) l i) (ss1 ! r) (ss' ! r))"
    using 2 assms(2) unfolding collector_frame_def
    by (cases "FaSibBufPatch \<and> FaLv > 0 \<and> \<not> JustCountNPar") (auto simp: shadow_frame_refl)
  show "length ss' = length ss" using a b by simp
  show "shadow_frame (\<lambda>l i. (int l = FaLv \<or> int l = FaLv - 1) \<and> is_buffer (ss ! r) l i)
             (ss ! r) (ss' ! r)" if r: "r < length ss" for r
  proof (rule shadow_frame_trans)
    show "shadow_frame (\<lambda>l i. int l = FaLv \<and> is_buffer (ss ! r) l i) (ss ! r) (ss1 ! r)"
      using a r by simp
    show "shadow_frame (\<lambda>l i. int l = FaLv - 1 \<and> is_buffer (ss1 ! r) l i) (ss1 ! r) (ss' ! r)"
      using a b r by simp
    show "(int l = FaLv \<or> int l = FaLv - 1) \<and> is_buffer (ss ! r) l i"
      if "int l = FaLv \<and> is_buffer (ss ! r) l i \<or> int l = FaLv - 1 \<and> is_buffer (ss1 ! r) l i" for l i
      using that a r is_buffer_frame [of _ "ss ! r" "ss1 ! r" l i] by auto
  qed
qed

lemma emap_zip_index:
  "emap (\<lambda>(r, s). f r s) (zip [0 ..< length ss] ss) = Inr ys \<longleftrightarrow>
     length ys = length ss \<and> (\<forall>r < length ss. f r (ss ! r) = Inr (ys ! r))"
  by (auto simp: emap_Inr_iff)

lemma emap_unit_iff:
  "(\<exists>us. emap f xs = Inr us) \<longleftrightarrow> (\<forall>x \<in> set xs. \<exists>u. f x = Inr u)"
proof (induction xs)
  case Nil
  then show ?case by simp
next
  case (Cons x xs)
  then show ?case by (auto simp: ebind_Inr_iff)
qed

text \<open>The call below the maximum level, step by step.\<close>

lemma collect_below_Inr:
  assumes "Par_LB_CollectParticle2OneLevel E FaLv PredictPos TargetTime SibBufPatch FaSibBufPatch
       JustCountNPar ss = Inr ss'" and "FaLv < MAX_LEVEL E"
  shows "\<exists>sbs ss1.
    check_flags E PredictPos SibBufPatch FaSibBufPatch JustCountNPar = Inr () \<and>
    (\<forall>s \<in> set ss. check_uninitialized E FaLv s = Inr ()) \<and>
    emap (prepare_send E (length ss) FaLv PredictPos TargetTime JustCountNPar) ss = Inr sbs \<and>
    length ss1 = length ss \<and>
    (\<forall>r < length ss.
           store_received E FaLv PredictPos JustCountNPar
             (Par_LB_SendParticleData (\<not> JustCountNPar) sbs r) (ss ! r) = Inr (ss1 ! r)) \<and>
    check_total E FaLv ss1 = Inr () \<and>
    collect_buffers E FaLv PredictPos TargetTime SibBufPatch FaSibBufPatch JustCountNPar ss1
           = Inr ss'"
proof -
  from assms obtain us sbs ss1 where
    1: "check_flags E PredictPos SibBufPatch FaSibBufPatch JustCountNPar = Inr ()"
    and 2: "emap (check_uninitialized E FaLv) ss = Inr us"
    and 3: "emap (prepare_send E (length ss) FaLv PredictPos TargetTime JustCountNPar) ss = Inr sbs"
    and 4: "emap (\<lambda>(r, s). store_received E FaLv PredictPos JustCountNPar
                                  (Par_LB_SendParticleData (\<not> JustCountNPar) sbs r) s)
                   (zip [0 ..< length ss] ss) = Inr ss1"
    and 5: "check_total E FaLv ss1 = Inr ()"
    and 6: "collect_buffers E FaLv PredictPos TargetTime SibBufPatch FaSibBufPatch JustCountNPar ss1
           = Inr ss'"
    unfolding Par_LB_CollectParticle2OneLevel_def by (auto simp: ebind_Inr_iff)
  have u2: "\<forall>s \<in> set ss. check_uninitialized E FaLv s = Inr ()"
    using 2 emap_unit_iff [of "check_uninitialized E FaLv" ss] by auto
  from 4 have u4: "length ss1 = length ss"
    "\<forall>r < length ss. store_received E FaLv PredictPos JustCountNPar
             (Par_LB_SendParticleData (\<not> JustCountNPar) sbs r) (ss ! r) = Inr (ss1 ! r)"
    unfolding emap_zip_index by simp_all
  show ?thesis
    by (intro exI [of _ sbs] exI [of _ ss1] conjI) (fact 1, fact u2, fact 3, fact u4(1), fact u4(2), fact 5, fact 6)
qed

subsection \<open>Step 1: the counts and the keys of the send buffers\<close>

lemma efold_iadd: "efold (\<lambda>c total. iadd total c) cs a = Inr t \<Longrightarrow> t = a + sum_list cs"
  by (induction cs arbitrary: a) (fastforce simp: ebind_Inr_iff iadd_Inr_iff)+

lemma isum_Inr: "isum cs = Inr t \<Longrightarrow> t = sum_list cs"
  unfolding isum_def by (drule efold_iadd) simp

lemma patch_offsets_Inr:
  "patch_offsets off cs = Inr os \<Longrightarrow> os = map (\<lambda>r. off + sum_list (take r cs)) [0 ..< length cs]"
proof (induction off cs arbitrary: os rule: patch_offsets.induct)
  case (1 off)
  then show ?case by simp
next
  case (2 off n)
  then show ?case by simp
next
  case (3 off n m ns)
  from "3.prems" obtain os' where a: "fits32 (off + n)"
    and r: "patch_offsets (off + n) (m # ns) = Inr os'" and os: "os = off # os'"
    by (auto simp: ebind_Inr_iff iadd_Inr_iff)
  have "os' = map (\<lambda>r. off + n + sum_list (take r (m # ns))) [0 ..< length (m # ns)]"
    using "3.IH" [of "off + n" os'] a r by (simp add: iadd_def int32_def fits32_def)
  then have "os = off # map (\<lambda>r. off + sum_list (take (Suc r) (n # m # ns))) [0 ..< length (m # ns)]"
    by (simp add: os add.assoc)
  also have "\<dots> = map (\<lambda>r. off + sum_list (take r (n # m # ns))) (0 # map Suc [0 ..< length (m # ns)])"
    by (simp add: o_def)
  also have "0 # map Suc [0 ..< length (m # ns)] = [0 ..< length (n # m # ns)]"
    by (simp add: upt_conv_Cons map_Suc_upt del: upt_Suc)
  finally show ?case .
qed

lemma patch_offsets_eq: "patch_offsets 0 cs = Inr os \<Longrightarrow> os = offsets cs"
  by (drule patch_offsets_Inr) (simp add: offsets_def)

lemma fill_particle_hdr:
  "fill_particle E s PredictPos TargetTime TRank ParID f = Inr f' \<Longrightarrow> hdr f' = hdr f"
  unfolding fill_particle_def
  by (auto simp: ebind_Inr_iff hdr_def split: if_splits prod.splits)

lemma fill_particles_hdr:
  assumes "efold (fill_particle E s PredictPos TargetTime TRank) ids f = Inr f'"
  shows "hdr f' = hdr f"
  by (rule efold_invariant [OF assms, where I = "\<lambda>x. hdr x = hdr f"])
     (auto dest: fill_particle_hdr)

lemma fill_patch_header:
  assumes "fill_patch E s FaLv PredictPos TargetTime JustCountNPar NP NQ lp f = Inr f'"
  shows "fill_header E s FaLv NP NQ lp (hdr f) = Inr (hdr f')"
proof -
  obtain lv p where lp: "lp = (lv, p)" by (cases lp)
  show ?thesis
  proof (cases "NPar p = 0")
    case True
    then show ?thesis using assms by (simp add: fill_patch_def fill_header_def lp hdr_def)
  next
    case False
    from assms False obtain key TRank off bn bl f1 where
      t: "target_rank E s FaLv lv p = Inr (key, TRank)"
      and off: "elem (Offset_NParEachPatch f) TRank = Inr off"
      and c1: "(if DEBUG_PARTICLE E then
                 ebind (fatal_if (off \<ge> NP) Offset_NParEachPatch_Max) (\<lambda>_.
                 ebind (iadd off (int PAR_POSZ)) (\<lambda>a.
                 ebind (imul NQ (int NParVar)) (\<lambda>b.
                   fatal_if (a \<ge> b) Offset_PAR_POSZ_Max)))
               else Inr ()) = Inr ()"
      and o1: "fits32 (off + 1)"
      and bn: "put (Buf_NParEachPatch f) off (NPar p) = Inr bn"
      and bl: "put (Buf_LBIdxEachPatch f) off key = Inr bl"
      and f1: "(if \<not> JustCountNPar
               then ebind (emap (\<lambda>q. elem (ParList p) (int q)) [0 ..< nat (NPar p)]) (\<lambda>ids.
                      efold (fill_particle E s PredictPos TargetTime TRank) ids
                        (f\<lparr>Buf_NParEachPatch := bn, Buf_LBIdxEachPatch := bl\<rparr>))
               else Inr (f\<lparr>Buf_NParEachPatch := bn, Buf_LBIdxEachPatch := bl\<rparr>)) = Inr f1"
      and f': "f' = f1\<lparr>Offset_NParEachPatch := (Offset_NParEachPatch f1)[nat TRank := off + 1]\<rparr>"
      unfolding fill_patch_def lp by (auto simp: ebind_Inr_iff iadd_Inr_iff)
    have "hdr f1 = hdr (f\<lparr>Buf_NParEachPatch := bn, Buf_LBIdxEachPatch := bl\<rparr>)"
      using f1 by (auto simp: ebind_Inr_iff split: if_splits dest: fill_particles_hdr)
    then have "hdr f' = ((Offset_NParEachPatch f)[nat TRank := off + 1], bn, bl)"
      by (simp add: f' hdr_def)
    then show ?thesis
      using False t off c1 o1 bn bl by (simp add: fill_header_def lp hdr_def iadd_def int32_def fits32_def)
  qed
qed

lemma fill_loop_header:
  assumes "efold (fill_patch E s FaLv PredictPos TargetTime JustCountNPar NP NQ) scan f = Inr f'"
  shows "efold (fill_header E s FaLv NP NQ) scan (hdr f) = Inr (hdr f')"
  using assms
proof (induction scan arbitrary: f)
  case Nil
  then show ?case by simp
next
  case (Cons lp scan)
  from Cons.prems obtain f1 where 1: "fill_patch E s FaLv PredictPos TargetTime JustCountNPar NP NQ lp f = Inr f1"
    and r: "efold (fill_patch E s FaLv PredictPos TargetTime JustCountNPar NP NQ) scan f1 = Inr f'"
    by (auto simp: ebind_Inr_iff)
  show ?case using fill_patch_header [OF 1] Cons.IH [OF r] by simp
qed

text \<open>Step 1 in terms of the counts and keys alone.\<close>

lemma prepare_send_header:
  assumes "prepare_send E NRank FaLv PredictPos TargetTime JustCountNPar s = Inr sb"
  shows "\<exists>scan NParForEachRank NPatchForEachRank offs.
    finer_patches E s FaLv = Inr scan \<and>
    efold (count_patch E s FaLv) scan (replicate NRank 0, replicate NRank 0)
      = Inr (NParForEachRank, NPatchForEachRank) \<and>
    0 \<le> sum_list NPatchForEachRank \<and>
    efold (fill_header E s FaLv (sum_list NPatchForEachRank) (sum_list NParForEachRank)) scan
      (offsets NPatchForEachRank, replicate (nat (sum_list NPatchForEachRank)) 0,
       replicate (nat (sum_list NPatchForEachRank)) 0)
      = Inr (offs, SendBuf_NParEachPatch sb, SendBuf_LBIdxEachPatch sb) \<and>
    SendBuf_NPatchEachRank sb = NPatchForEachRank"
proof -
  from assms obtain scan c where scan: "finer_patches E s FaLv = Inr scan"
    and c: "efold (count_patch E s FaLv) scan (replicate NRank 0, replicate NRank 0) = Inr c"
    unfolding prepare_send_def by (auto simp: ebind_Inr_iff)
  obtain NParForEachRank NPatchForEachRank where cc: "c = (NParForEachRank, NPatchForEachRank)"
    by (cases c)
  from assms scan c cc obtain NP NQ d0 Offset_NPar Offset_ParData f where
    np: "isum NPatchForEachRank = Inr NP" and nq: "isum NParForEachRank = Inr NQ"
    and nn: "\<not> NP < 0"
    and on: "patch_offsets 0 NPatchForEachRank = Inr Offset_NPar"
    and f: "efold (fill_patch E s FaLv PredictPos TargetTime JustCountNPar NP NQ) scan
                \<lparr>Offset_NParEachPatch = Offset_NPar,
                 Offset_ParDataEachPatch = Offset_ParData,
                 Buf_NParEachPatch = replicate (nat NP) 0,
                 Buf_LBIdxEachPatch = replicate (nat NP) 0,
                 Buf_ParDataEachPatch = d0\<rparr>
           = Inr f"
    and sb: "sb = \<lparr>SendBuf_NPatchEachRank = NPatchForEachRank,
                   SendBuf_NParEachPatch = Buf_NParEachPatch f,
                   SendBuf_LBIdxEachPatch = Buf_LBIdxEachPatch f,
                   SendBuf_ParDataEachPatch = Buf_ParDataEachPatch f\<rparr>"
    unfolding prepare_send_def
    by (auto simp: ebind_Inr_iff split: if_splits)
  have NP: "NP = sum_list NPatchForEachRank" and NQ: "NQ = sum_list NParForEachRank"
    using isum_Inr [OF np] isum_Inr [OF nq] by simp_all
  have O: "Offset_NPar = offsets NPatchForEachRank" using patch_offsets_eq [OF on] .
  from fill_loop_header [OF f]
  have "efold (fill_header E s FaLv (sum_list NPatchForEachRank) (sum_list NParForEachRank)) scan
      (offsets NPatchForEachRank, replicate (nat (sum_list NPatchForEachRank)) 0,
       replicate (nat (sum_list NPatchForEachRank)) 0)
      = Inr (Offset_NParEachPatch f, SendBuf_NParEachPatch sb, SendBuf_LBIdxEachPatch sb)"
    by (simp add: hdr_def sb NP NQ O)
  then show ?thesis using scan c cc nn sb NP by auto
qed

lemma prepare_send_flag_independent:
  assumes "prepare_send E NRank FaLv PredictPos TargetTime JustCountNPar s = Inr sb"
    and "prepare_send E NRank FaLv PredictPos' TargetTime' JustCountNPar' s = Inr sb'"
  shows "send_header sb' = send_header sb"
  using prepare_send_header [OF assms(1)] prepare_send_header [OF assms(2)]
  by (auto simp: send_header_def)

lemma fill_header_lengths:
  assumes "fill_header E s FaLv NP NQ lp (offs, bn, bl) = Inr (offs', bn', bl')"
  shows "length offs' = length offs \<and> length bn' = length bn \<and> length bl' = length bl"
  using assms unfolding fill_header_def
  by (auto simp: ebind_Inr_iff put_Inr_iff split: if_splits prod.splits)

lemma fill_headers_lengths:
  assumes "efold (fill_header E s FaLv NP NQ) scan h = Inr h'"
  shows "length (fst h') = length (fst h) \<and> length (fst (snd h')) = length (fst (snd h)) \<and>
         length (snd (snd h')) = length (snd (snd h))"
proof (rule efold_invariant [OF assms, where
      I = "\<lambda>x. length (fst x) = length (fst h) \<and> length (fst (snd x)) = length (fst (snd h)) \<and>
         length (snd (snd x)) = length (snd (snd h))"])
  show "length (fst h) = length (fst h) \<and> length (fst (snd h)) = length (fst (snd h)) \<and>
         length (snd (snd h)) = length (snd (snd h))" by simp
next
  fix x a b
  assume "length (fst a) = length (fst h) \<and> length (fst (snd a)) = length (fst (snd h)) \<and>
         length (snd (snd a)) = length (snd (snd h))"
    and "fill_header E s FaLv NP NQ x a = Inr b"
  then show "length (fst b) = length (fst h) \<and> length (fst (snd b)) = length (fst (snd h)) \<and>
         length (snd (snd b)) = length (snd (snd h))"
    using fill_header_lengths [of E s FaLv NP NQ x "fst a" "fst (snd a)" "snd (snd a)"
        "fst b" "fst (snd b)" "snd (snd b)"] by simp
qed

lemma prepare_send_lengths:
  assumes "prepare_send E NRank FaLv PredictPos TargetTime JustCountNPar s = Inr sb"
  shows "length (SendBuf_LBIdxEachPatch sb) = length (SendBuf_NParEachPatch sb)"
  using prepare_send_header [OF assms] by (auto dest!: fill_headers_lengths)

lemma exchange_lengths:
  assumes "\<And>sb. sb \<in> set sbs \<Longrightarrow> length (SendBuf_LBIdxEachPatch sb) = length (SendBuf_NParEachPatch sb)"
  shows "length (RecvBuf_LBIdxEachPatch (Par_LB_SendParticleData x sbs t))
       = length (RecvBuf_NParEachPatch (Par_LB_SendParticleData x sbs t))"
proof -
  have "map (\<lambda>sb. length (sent_LBIdx sb t)) sbs = map (\<lambda>sb. length (sent_NPar sb t)) sbs"
    using assms by (auto simp: sent_LBIdx_def sent_NPar_def slice_def)
  then have "sum_list (map (\<lambda>sb. length (sent_LBIdx sb t)) sbs)
      = sum_list (map (\<lambda>sb. length (sent_NPar sb t)) sbs)" by (rule arg_cong)
  then show ?thesis
    by (simp add: Par_LB_SendParticleData_def length_concat o_def)
qed

lemma exchange_header:
  assumes "map send_header sbs' = map send_header sbs"
  shows "RecvBuf_NParEachPatch (Par_LB_SendParticleData x' sbs' t)
           = RecvBuf_NParEachPatch (Par_LB_SendParticleData x sbs t)"
    and "RecvBuf_LBIdxEachPatch (Par_LB_SendParticleData x' sbs' t)
           = RecvBuf_LBIdxEachPatch (Par_LB_SendParticleData x sbs t)"
proof -
  have 1: "sent_NPar sb t = (case send_header sb of (np, bn, bl) \<Rightarrow> slice bn (sum_list (take t np)) (np ! t))" for sb
    by (simp add: sent_NPar_def send_header_def)
  have 2: "sent_LBIdx sb t = (case send_header sb of (np, bn, bl) \<Rightarrow> slice bl (sum_list (take t np)) (np ! t))" for sb
    by (simp add: sent_LBIdx_def send_header_def)
  have "map (\<lambda>sb. sent_NPar sb t) sbs' = map (\<lambda>sb. sent_NPar sb t) sbs"
    using arg_cong [OF assms, of "map (\<lambda>h. case h of (np, bn, bl) \<Rightarrow> slice bn (sum_list (take t np)) (np ! t))"]
    by (simp add: 1 o_def)
  moreover have "map (\<lambda>sb. sent_LBIdx sb t) sbs' = map (\<lambda>sb. sent_LBIdx sb t) sbs"
    using arg_cong [OF assms, of "map (\<lambda>h. case h of (np, bn, bl) \<Rightarrow> slice bl (sum_list (take t np)) (np ! t))"]
    by (simp add: 2 o_def)
  ultimately show "RecvBuf_NParEachPatch (Par_LB_SendParticleData x' sbs' t)
           = RecvBuf_NParEachPatch (Par_LB_SendParticleData x sbs t)"
    and "RecvBuf_LBIdxEachPatch (Par_LB_SendParticleData x' sbs' t)
           = RecvBuf_LBIdxEachPatch (Par_LB_SendParticleData x sbs t)"
    by (simp_all add: Par_LB_SendParticleData_def)
qed

subsection \<open>The frame of steps 3 and 4\<close>

lemma real_patches_Inr_iff:
  "real_patches s lv = Inr ps \<longleftrightarrow>
     (\<exists>n ps0. elem (NPatchComma s) lv = Inr n \<and> elem (patch s) lv = Inr ps0 \<and>
        n \<le> int (length ps0) \<and> ps = take (nat n) ps0)"
  by (auto simp: real_patches_def ebind_Inr_iff)

lemma store_received_frame:
  assumes "store_received E FaLv PredictPos JustCountNPar rb s = Inr s'"
    and "length (RecvBuf_LBIdxEachPatch rb) = length (RecvBuf_NParEachPatch rb)"
  shows "shadow_frame (\<lambda>l i. int l = FaLv) s s'"
proof -
  from store_received_result [OF assms] obtain n ps ps' where
    sp: "store_post E FaLv JustCountNPar rb s s' n ps ps'" by blast
  note ps = store_postD(2) [OF sp] and s' = store_postD(4) [OF sp] and l = store_postD(5) [OF sp]
    and k = store_postD(6) [OF sp]
  from ps have f: "0 \<le> FaLv" "nat FaLv < length (patch s)" "ps = patch s ! nat FaLv"
    by (auto simp: elem_Inr_iff)
  have nth: "patch s' ! l = (if l = nat FaLv then ps' else patch s ! l)" if "l < length (patch s)" for l
    using that by (simp add: s' nth_list_update)
  have "length (patch s' ! l) = length (patch s ! l) \<and>
        (\<forall>i < length (patch s ! l).
           (int l = FaLv \<longrightarrow> same_but_shadow (patch s ! l ! i) (patch s' ! l ! i)) \<and>
           (\<not> int l = FaLv \<longrightarrow> patch s' ! l ! i = patch s ! l ! i))"
    if ll: "l < length (patch s)" for l
  proof (cases "l = nat FaLv")
    case True
    then have "int l = FaLv" using f(1) by simp
    then show ?thesis using nth [OF ll] True l k f(3) by simp
  next
    case False
    then have "int l \<noteq> FaLv" by auto
    then show ?thesis using nth [OF ll] False by simp
  qed
  moreover have "NPatchComma s' = NPatchComma s" "num s' = num s" "scale s' = scale s"
    "Par s' = Par s" "LB s' = LB s" "length (patch s') = length (patch s)"
    by (simp_all add: s')
  ultimately show ?thesis unfolding shadow_frame_def by blast
qed

subsection \<open>The call on one rank\<close>

text \<open>Below the maximum level: what the call does to the patches at the target level of one rank.\<close>

lemma collect_rank:
  assumes c: "Par_LB_CollectParticle2OneLevel E FaLv PredictPos TargetTime SibBufPatch FaSibBufPatch
       JustCountNPar ss = Inr ss'" and lt: "FaLv < MAX_LEVEL E"
    and fr: "collector_frame E" and r: "r < length ss"
  shows "\<exists>rbs s1.
    received E FaLv PredictPos TargetTime JustCountNPar ss = Inr rbs \<and>
    length (RecvBuf_LBIdxEachPatch (rbs ! r)) = length (RecvBuf_NParEachPatch (rbs ! r)) \<and>
    store_received E FaLv PredictPos JustCountNPar (rbs ! r) (ss ! r) = Inr s1 \<and>
    shadow_frame (\<lambda>l i. (int l = FaLv \<or> int l = FaLv - 1) \<and> is_buffer s1 l i) s1 (ss' ! r) \<and>
    length ss' = length ss \<and>
    (DEBUG_PARTICLE E \<longrightarrow> uninitialized (ss ! r) FaLv) \<and>
    (JustCountNPar \<longrightarrow> ss' ! r = s1)"
proof -
  from collect_below_Inr [OF c lt] obtain sbs ss1 where
    un: "\<forall>s \<in> set ss. check_uninitialized E FaLv s = Inr ()"
    and sbs: "emap (prepare_send E (length ss) FaLv PredictPos TargetTime JustCountNPar) ss = Inr sbs"
    and l1: "length ss1 = length ss"
    and st: "\<forall>r < length ss.
           store_received E FaLv PredictPos JustCountNPar
             (Par_LB_SendParticleData (\<not> JustCountNPar) sbs r) (ss ! r) = Inr (ss1 ! r)"
    and cb: "collect_buffers E FaLv PredictPos TargetTime SibBufPatch FaSibBufPatch JustCountNPar ss1
           = Inr ss'"
    by blast
  define rbs where "rbs = map (Par_LB_SendParticleData (\<not> JustCountNPar) sbs) [0 ..< length ss]"
  have 1: "received E FaLv PredictPos TargetTime JustCountNPar ss = Inr rbs"
    by (simp add: received_def sbs rbs_def)
  have rb: "rbs ! r = Par_LB_SendParticleData (\<not> JustCountNPar) sbs r" using r by (simp add: rbs_def)
  have "length (SendBuf_LBIdxEachPatch sb) = length (SendBuf_NParEachPatch sb)" if "sb \<in> set sbs" for sb
  proof -
    from that obtain i where "i < length sbs" "sb = sbs ! i" by (auto simp: in_set_conv_nth)
    then have "prepare_send E (length ss) FaLv PredictPos TargetTime JustCountNPar (ss ! i) = Inr sb"
      using sbs by (simp add: emap_Inr_iff)
    then show ?thesis by (rule prepare_send_lengths)
  qed
  then have 2: "length (RecvBuf_LBIdxEachPatch (rbs ! r)) = length (RecvBuf_NParEachPatch (rbs ! r))"
    unfolding rb by (rule exchange_lengths)
  have 3: "store_received E FaLv PredictPos JustCountNPar (rbs ! r) (ss ! r) = Inr (ss1 ! r)"
    using st r rb by simp
  note cf = collect_buffers_frame [OF cb fr]
  have 4: "shadow_frame (\<lambda>l i. (int l = FaLv \<or> int l = FaLv - 1) \<and> is_buffer (ss1 ! r) l i) (ss1 ! r) (ss' ! r)"
    using cf(2) [of r] r l1 by simp
  have 5: "length ss' = length ss" using cf(1) l1 by simp
  have 6: "DEBUG_PARTICLE E \<longrightarrow> uninitialized (ss ! r) FaLv"
  proof
    assume d: "DEBUG_PARTICLE E"
    have "check_uninitialized E FaLv (ss ! r) = Inr ()" using un r by simp
    then obtain ps where ps: "real_patches (ss ! r) FaLv = Inr ps"
      and e: "efold (\<lambda>p _.
              ebind (fatal_if (NPar_Copy p \<noteq> - 1) Initialized_Already) (\<lambda>_.
                fatal_if (\<not> all4 (\<lambda>a. a = None) (ParMassPos_Copy p)) Initialized_Already))
            ps () = Inr ()"
      using d by (auto simp: check_uninitialized_def ebind_Inr_iff)
    from e have "\<forall>p \<in> set ps. patch_clean p"
      unfolding efold_unit_iff by (auto simp: ebind_Inr_iff fatal_if_Inr_iff patch_clean_def)
    then show "uninitialized (ss ! r) FaLv" by (simp add: uninitialized_def ps list_all_iff)
  qed
  have 7: "JustCountNPar \<longrightarrow> ss' ! r = ss1 ! r"
    using cb by (auto simp: collect_buffers_def)
  show ?thesis
    by (intro exI [of _ rbs] exI [of _ "ss1 ! r"] conjI)
       (fact 1, fact 2, fact 3, fact 4, fact 5, fact 6, fact 7)
qed

lemma expected_nonleaf:
  "son p \<noteq> - 1 \<Longrightarrow> 0 \<le> NPar p \<Longrightarrow> 0 \<le> A \<Longrightarrow> expected_count jc True p A = NPar p + A"
  by (auto simp: expected_count_def Let_def resident_def)

lemma expected_leaf:
  "son p = - 1 \<Longrightarrow> NPar_Copy p \<le> 0 \<Longrightarrow> expected_count jc True p 0 = NPar_Copy p"
  by (auto simp: expected_count_def Let_def resident_def)

lemma received_for_nonneg:
  assumes "list_all (\<lambda>c. 0 < c) (RecvBuf_NParEachPatch rb)"
  shows "0 \<le> received_for s FaLv rb PID"
  unfolding received_for_def
proof (rule sum_list_nonneg)
  fix x assume "x \<in> set (map snd (filter (\<lambda>kn. owner_of_key s FaLv (fst kn) = Inr PID)
                          (zip (RecvBuf_LBIdxEachPatch rb) (RecvBuf_NParEachPatch rb))))"
  then have "x \<in> set (RecvBuf_NParEachPatch rb)" by (auto dest: set_zip_rightD)
  then show "0 \<le> x" using assms by (auto simp: list_all_iff)
qed

lemma received_for_zero:
  assumes "\<forall>key \<in> set (RecvBuf_LBIdxEachPatch rb). owner_of_key s FaLv key \<noteq> Inr PID"
  shows "received_for s FaLv rb PID = 0"
proof -
  have "filter (\<lambda>kn. owner_of_key s FaLv (fst kn) = Inr PID)
          (zip (RecvBuf_LBIdxEachPatch rb) (RecvBuf_NParEachPatch rb)) = []"
    using assms by (auto simp: filter_empty_conv dest: set_zip_leftD)
  then show ?thesis by (simp add: received_for_def)
qed

text \<open>What the checks of a diagnostic build establish about the received records.\<close>

lemma store_post_records_ok:
  assumes sp: "store_post E FaLv False rb s s' n ps ps'" and d: "DEBUG_PARTICLE E"
  shows "records_ok s FaLv rb"
proof -
  have rp: "real_patches s FaLv = Inr (take (nat n) ps)"
    using store_postD(1,2,3) [OF sp] by (simp add: real_patches_def)
  have "list_all (\<lambda>c. 0 < c) (RecvBuf_NParEachPatch rb)"
    using store_postD(11) [OF sp d] by (simp add: list_all_iff)
  moreover have "case owner_of_key s FaLv key of
                        Inr ow \<Rightarrow> (case real_patches s FaLv of
                                     Inr ps \<Rightarrow> 0 \<le> ow \<and> nat ow < length ps \<and> son (ps ! nat ow) \<noteq> - 1
                                   | Inl _ \<Rightarrow> False)
                      | Inl _ \<Rightarrow> False"
    if "key \<in> set (RecvBuf_LBIdxEachPatch rb)" for key
    using store_postD(10) [OF sp that] d by (auto simp: rp)
  ultimately show ?thesis by (simp add: records_ok_def list_all_iff)
qed

lemma records_ok_leaf:
  assumes "records_ok s FaLv rb" and "real_patches s FaLv = Inr ps" and "k < length ps"
    and "son (ps ! k) = - 1"
  shows "\<forall>key \<in> set (RecvBuf_LBIdxEachPatch rb). owner_of_key s FaLv key \<noteq> Inr (int k)"
proof
  fix key assume "key \<in> set (RecvBuf_LBIdxEachPatch rb)"
  then have "case owner_of_key s FaLv key of
                        Inr ow \<Rightarrow> 0 \<le> ow \<and> nat ow < length ps \<and> son (ps ! nat ow) \<noteq> - 1
                      | Inl _ \<Rightarrow> False"
    using assms(1,2) by (auto simp: records_ok_def list_all_iff split: sum.splits)
  then show "owner_of_key s FaLv key \<noteq> Inr (int k)" using assms(4) by (auto split: sum.splits)
qed

text \<open>Below the maximum level: the real patches at the target level of one rank after the call.\<close>

lemma collect_rank_patches:
  assumes c: "Par_LB_CollectParticle2OneLevel E FaLv PredictPos TargetTime SibBufPatch FaSibBufPatch
       JustCountNPar ss = Inr ss'" and lt: "FaLv < MAX_LEVEL E"
    and fr: "collector_frame E" and r: "r < length ss"
  shows "\<exists>rbs s1 n ps0 ps1 ps'.
    received E FaLv PredictPos TargetTime JustCountNPar ss = Inr rbs \<and>
    store_received E FaLv PredictPos JustCountNPar (rbs ! r) (ss ! r) = Inr s1 \<and>
    store_post E FaLv JustCountNPar (rbs ! r) (ss ! r) s1 n ps0 ps1 \<and>
    real_patches (ss ! r) FaLv = Inr (take (nat n) ps0) \<and>
    elem (patch s1) FaLv = Inr ps1 \<and>
    real_patches (ss' ! r) FaLv = Inr ps' \<and> length ps' = length (take (nat n) ps0) \<and>
    (\<forall>k < length ps'. ps' ! k = ps1 ! k) \<and>
    (DEBUG_PARTICLE E \<longrightarrow> uninitialized (ss ! r) FaLv) \<and>
    (JustCountNPar \<longrightarrow> ss' ! r = s1)"
proof -
  from collect_rank [OF c lt fr r] obtain rbs s1 where
    1: "received E FaLv PredictPos TargetTime JustCountNPar ss = Inr rbs"
    and len: "length (RecvBuf_LBIdxEachPatch (rbs ! r)) = length (RecvBuf_NParEachPatch (rbs ! r))"
    and 2: "store_received E FaLv PredictPos JustCountNPar (rbs ! r) (ss ! r) = Inr s1"
    and sf: "shadow_frame (\<lambda>l i. (int l = FaLv \<or> int l = FaLv - 1) \<and> is_buffer s1 l i) s1 (ss' ! r)"
    and 9: "DEBUG_PARTICLE E \<longrightarrow> uninitialized (ss ! r) FaLv"
    and 10: "JustCountNPar \<longrightarrow> ss' ! r = s1"
    by blast
  from store_received_result [OF 2 len] obtain n ps0 ps1 where
    3: "store_post E FaLv JustCountNPar (rbs ! r) (ss ! r) s1 n ps0 ps1" by blast
  note D = store_postD [OF 3]
  have 4: "real_patches (ss ! r) FaLv = Inr (take (nat n) ps0)"
    using D(1,2,3) by (simp add: real_patches_def)
  from D(2) have f: "0 \<le> FaLv" "nat FaLv < length (patch (ss ! r))"
    by (auto simp: elem_Inr_iff)
  have p1: "patch s1 ! nat FaLv = ps1" "length (patch s1) = length (patch (ss ! r))"
    "NPatchComma s1 = NPatchComma (ss ! r)"
    using f by (simp_all add: D(4))
  have 5: "elem (patch s1) FaLv = Inr ps1" using f p1 by (simp add: elem_Inr_iff)
  define full where "full = patch (ss' ! r) ! nat FaLv"
  have lf: "length full = length ps1" "length (patch (ss' ! r)) = length (patch s1)"
    "NPatchComma (ss' ! r) = NPatchComma s1"
    using sf f p1 by (auto simp: shadow_frame_def full_def)
  have eq: "full ! k = ps1 ! k" if "k < nat n" "k < length ps1" for k
  proof -
    have "\<not> is_buffer s1 (nat FaLv) k"
      using that f D(1) by (simp add: is_buffer_def p1)
    then show ?thesis using sf f p1 that by (auto simp: shadow_frame_def full_def)
  qed
  define ps' where "ps' = take (nat n) full"
  have 6: "real_patches (ss' ! r) FaLv = Inr ps'"
    using D(1,3,5) f lf p1 by (simp add: real_patches_def full_def ps'_def elem_def)
  have 7: "length ps' = length (take (nat n) ps0)" using lf D(5) by (simp add: ps'_def)
  have 8: "\<forall>k < length ps'. ps' ! k = ps1 ! k" using eq lf by (simp add: ps'_def)
  show ?thesis
    by (intro exI [of _ rbs] exI [of _ s1] exI [of _ n] exI [of _ ps0] exI [of _ ps1]
          exI [of _ ps'] conjI)
       (fact 1, fact 2, fact 3, fact 4, fact 5, fact 6, fact 7, fact 8, fact 9, fact 10)
qed

subsection \<open>The shadow counts after a call\<close>

text \<open>
  C1. After a call that is not count-only, at a target level below the maximum level, the
  shadow count of every real patch of the target level that has a son is its own particle
  count \<open>NPar\<close> plus the counts of all the records its rank received whose key is the
  key of that patch; a real patch without son keeps the shadow count \<open>-1\<close> and its four
  shadow fields null. This is what a diagnostic build guarantees on return; a production
  build does under the conditions the diagnostic build checks (\<open>as_diagnosed\<close>).
\<close>

theorem collect_shadow_count:
  assumes c: "Par_LB_CollectParticle2OneLevel E FaLv PredictPos TargetTime SibBufPatch FaSibBufPatch
       False ss = Inr ss'"
    and lt: "FaLv < MAX_LEVEL E" and fr: "collector_frame E" and r: "r < length ss"
    and pre: "DEBUG_PARTICLE E \<or> as_diagnosed E FaLv PredictPos TargetTime ss r"
    and ps: "real_patches (ss ! r) FaLv = Inr ps" and k: "k < length ps"
    and nn: "0 \<le> NPar (ps ! k)"
  shows "\<exists>rbs ps'. received E FaLv PredictPos TargetTime False ss = Inr rbs \<and>
     real_patches (ss' ! r) FaLv = Inr ps' \<and> length ps' = length ps \<and>
     (if son (ps ! k) \<noteq> - 1
      then NPar_Copy (ps' ! k) = NPar (ps ! k) + received_for (ss ! r) FaLv (rbs ! r) (int k)
      else NPar_Copy (ps' ! k) = - 1 \<and> all4 (\<lambda>a. a = None) (ParMassPos_Copy (ps' ! k)))"
proof -
  from collect_rank_patches [OF c lt fr r] obtain rbs s1 n ps0 ps1 ps' where
    rbs: "received E FaLv PredictPos TargetTime False ss = Inr rbs"
    and sp: "store_post E FaLv False (rbs ! r) (ss ! r) s1 n ps0 ps1"
    and rp: "real_patches (ss ! r) FaLv = Inr (take (nat n) ps0)"
    and rp': "real_patches (ss' ! r) FaLv = Inr ps'"
    and len: "length ps' = length (take (nat n) ps0)"
    and eq: "\<forall>k < length ps'. ps' ! k = ps1 ! k"
    and un: "DEBUG_PARTICLE E \<longrightarrow> uninitialized (ss ! r) FaLv"
    by blast
  note D = store_postD [OF sp]
  have pseq: "ps = take (nat n) ps0" using ps rp by simp
  have kn: "k < nat n" "k < length ps0" "int k < n" using k pseq by auto
  have pk: "ps ! k = ps0 ! k" using k pseq by simp
  have pk': "ps' ! k = ps1 ! k" using eq k len pseq by simp
  have diag: "uninitialized (ss ! r) FaLv \<and> records_ok (ss ! r) FaLv (rbs ! r)"
  proof (cases "DEBUG_PARTICLE E")
    case True
    then show ?thesis using un store_post_records_ok [OF sp] by simp
  next
    case False
    then show ?thesis using pre rbs by (simp add: as_diagnosed_def)
  qed
  then have cl: "patch_clean (ps ! k)" using ps k by (simp add: uninitialized_def list_all_length)
  have cnt: "NPar_Copy (ps1 ! k) = expected_count False True (ps0 ! k)
      (received_for (ss ! r) FaLv (rbs ! r) (int k))"
    using D(7) [OF kn(2)] kn(3) by simp
  show ?thesis
  proof (cases "son (ps ! k) \<noteq> - 1")
    case True
    have "0 \<le> received_for (ss ! r) FaLv (rbs ! r) (int k)"
      using diag by (intro received_for_nonneg) (simp add: records_ok_def)
    then have "NPar_Copy (ps' ! k) = NPar (ps ! k) + received_for (ss ! r) FaLv (rbs ! r) (int k)"
      using cnt True nn pk pk' by (simp add: expected_nonleaf)
    then show ?thesis using rbs rp' len pseq True by auto
  next
    case False
    then have leaf: "son (ps ! k) = - 1" by simp
    have nokey: "\<forall>key \<in> set (RecvBuf_LBIdxEachPatch (rbs ! r)).
        owner_of_key (ss ! r) FaLv key \<noteq> Inr (int k)"
      using diag ps k leaf by (intro records_ok_leaf) simp_all
    have "ps1 ! k = ps0 ! k"
      using D(9) [OF kn(2) nokey] cl leaf pk by (simp add: patch_clean_def)
    then have "NPar_Copy (ps' ! k) = - 1 \<and> all4 (\<lambda>a. a = None) (ParMassPos_Copy (ps' ! k))"
      using cl pk pk' by (simp add: patch_clean_def)
    then show ?thesis using rbs rp' len pseq False by auto
  qed
qed

lemma demo_collector_frame: "collector_frame demo_env"
  by (simp add: collector_frame_def demo_env_def shadow_frame_refl)

lemma demo_collector_frame_production: "collector_frame demo_env_production"
  by (simp add: collector_frame_def demo_env_production_def demo_env_def shadow_frame_refl)

theorem collect_shadow_count_witness:
  "Par_LB_CollectParticle2OneLevel demo_env 0 False (Fin 0) False False False [demo_rank0, demo_rank1]
     = Inr [demo_rank0_collected, demo_rank1] \<and>
   0 < MAX_LEVEL demo_env \<and> DEBUG_PARTICLE demo_env \<and>
   real_patches demo_rank0 0 = Inr (patch demo_rank0 ! 0) \<and>
   son (patch demo_rank0 ! 0 ! 0) = 0 \<and> son (patch demo_rank0 ! 0 ! 1) = - 1 \<and>
   (\<exists>rbs ps'. received demo_env 0 False (Fin 0) False [demo_rank0, demo_rank1] = Inr rbs \<and>
      real_patches demo_rank0_collected 0 = Inr ps' \<and> length ps' = 2 \<and>
      NPar_Copy (ps' ! 0) = 1 + received_for demo_rank0 0 (rbs ! 0) 0) \<and>
   (\<exists>rbs ps'. received demo_env 0 False (Fin 0) False [demo_rank0, demo_rank1] = Inr rbs \<and>
      real_patches demo_rank0_collected 0 = Inr ps' \<and> length ps' = 2 \<and>
      NPar_Copy (ps' ! 1) = - 1 \<and> all4 (\<lambda>a. a = None) (ParMassPos_Copy (ps' ! 1)))"
proof -
  have c: "Par_LB_CollectParticle2OneLevel demo_env 0 False (Fin 0) False False False [demo_rank0, demo_rank1]
     = Inr [demo_rank0_collected, demo_rank1]" by code_simp
  have lt: "0 < MAX_LEVEL demo_env" by code_simp
  have d: "DEBUG_PARTICLE demo_env" by code_simp
  have r: "0 < length [demo_rank0, demo_rank1]" by simp
  have ps: "real_patches ([demo_rank0, demo_rank1] ! 0) 0 = Inr (patch demo_rank0 ! 0)" by code_simp
  have s: "son (patch demo_rank0 ! 0 ! 0) = 0" "son (patch demo_rank0 ! 0 ! 1) = - 1"
    "NPar (patch demo_rank0 ! 0 ! 0) = 1" "NPar (patch demo_rank0 ! 0 ! 1) = 1"
    "length (patch demo_rank0 ! 0) = 2"
    by code_simp+
  have k0: "0 < length (patch demo_rank0 ! 0)" and k1: "1 < length (patch demo_rank0 ! 0)"
    using s(5) by simp_all
  have n0: "0 \<le> NPar (patch demo_rank0 ! 0 ! 0)" and n1: "0 \<le> NPar (patch demo_rank0 ! 0 ! 1)"
    using s(3,4) by simp_all
  note a = collect_shadow_count [OF c lt demo_collector_frame r disjI1 [OF d] ps k0 n0]
  note b = collect_shadow_count [OF c lt demo_collector_frame r disjI1 [OF d] ps k1 n1]
  show ?thesis using a b c lt d ps s by simp
qed

subsection \<open>What a call leaves unchanged\<close>

lemma shadow_frame_mono:
  "shadow_frame W1 a b \<Longrightarrow> (\<And>l i. W1 l i \<Longrightarrow> W l i) \<Longrightarrow> shadow_frame W a b"
  by (rule shadow_frame_trans [of W1 a b "\<lambda>l i. False" b W]) (simp_all add: shadow_frame_refl)

lemma collect_at_max:
  assumes "Par_LB_CollectParticle2OneLevel E FaLv PredictPos TargetTime SibBufPatch FaSibBufPatch
       JustCountNPar ss = Inr ss'" and "FaLv = MAX_LEVEL E"
  shows "collect_buffers E FaLv PredictPos TargetTime SibBufPatch FaSibBufPatch JustCountNPar ss = Inr ss'"
  using assms unfolding Par_LB_CollectParticle2OneLevel_def by (auto simp: ebind_Inr_iff)

lemma collect_frame_rank:
  assumes c: "Par_LB_CollectParticle2OneLevel E FaLv PredictPos TargetTime SibBufPatch FaSibBufPatch
       JustCountNPar ss = Inr ss'" and fr: "collector_frame E"
  shows "length ss' = length ss"
    and "r < length ss \<Longrightarrow>
       shadow_frame (\<lambda>l i. int l = FaLv \<or> (int l = FaLv - 1 \<and> is_buffer (ss ! r) l i))
         (ss ! r) (ss' ! r)"
proof -
  consider (above) "MAX_LEVEL E < FaLv" | (at) "FaLv = MAX_LEVEL E" | (below) "FaLv < MAX_LEVEL E"
    by linarith
  then have "length ss' = length ss \<and> (r < length ss \<longrightarrow>
       shadow_frame (\<lambda>l i. int l = FaLv \<or> (int l = FaLv - 1 \<and> is_buffer (ss ! r) l i))
         (ss ! r) (ss' ! r))"
  proof cases
    case above
    then have "ss' = ss" using c by (simp add: Par_LB_CollectParticle2OneLevel_def)
    then show ?thesis by (simp add: shadow_frame_refl)
  next
    case at
    note cf = collect_buffers_frame [OF collect_at_max [OF c at] fr]
    have "shadow_frame (\<lambda>l i. int l = FaLv \<or> (int l = FaLv - 1 \<and> is_buffer (ss ! r) l i))
         (ss ! r) (ss' ! r)" if "r < length ss"
      by (rule shadow_frame_mono [OF cf(2) [OF that]]) auto
    then show ?thesis using cf(1) by simp
  next
    case below
    have "shadow_frame (\<lambda>l i. int l = FaLv \<or> (int l = FaLv - 1 \<and> is_buffer (ss ! r) l i))
         (ss ! r) (ss' ! r)" if r: "r < length ss"
    proof -
      from collect_rank [OF c below fr r] obtain rbs s1 where
        len: "length (RecvBuf_LBIdxEachPatch (rbs ! r)) = length (RecvBuf_NParEachPatch (rbs ! r))"
        and st: "store_received E FaLv PredictPos JustCountNPar (rbs ! r) (ss ! r) = Inr s1"
        and sf: "shadow_frame (\<lambda>l i. (int l = FaLv \<or> int l = FaLv - 1) \<and> is_buffer s1 l i) s1 (ss' ! r)"
        by blast
      note f1 = store_received_frame [OF st len]
      show ?thesis
      proof (rule shadow_frame_trans [OF f1 sf])
        show "int l = FaLv \<or> int l = FaLv - 1 \<and> is_buffer (ss ! r) l i"
          if "int l = FaLv \<or> (int l = FaLv \<or> int l = FaLv - 1) \<and> is_buffer s1 l i" for l i
          using that is_buffer_frame [OF f1, of l i] by auto
      qed
    qed
    moreover have "length ss' = length ss"
    proof (cases "ss = []")
      case True
      then show ?thesis
        using c below
        by (auto simp: Par_LB_CollectParticle2OneLevel_def ebind_Inr_iff
            dest: collect_buffers_frame(1) [OF _ fr])
    next
      case False
      then have "0 < length ss" by simp
      from collect_rank [OF c below fr this] show ?thesis by blast
    qed
    ultimately show ?thesis by simp
  qed
  then show "length ss' = length ss"
    and "r < length ss \<Longrightarrow>
       shadow_frame (\<lambda>l i. int l = FaLv \<or> (int l = FaLv - 1 \<and> is_buffer (ss ! r) l i))
         (ss ! r) (ss' ! r)" by simp_all
qed

text \<open>
  C5. The call changes nothing but the two shadow fields \<open>NPar_Copy\<close> and
  \<open>ParMassPos_Copy\<close>, and those only of patches at the target level and of buffer patches
  at the level below it (the father-sibling-buffer patches): on every rank every other
  component of the state, and every patch at a finer level as a whole, is the same after
  the call as before it; in particular \<open>NPar\<close> and \<open>ParList\<close> of every patch are. The
  routine for the buffer patches, which is not part of the sources, is taken to write the
  shadow fields of buffer patches at its level only (\<open>collector_frame\<close>).
\<close>

theorem collect_frame:
  assumes "Par_LB_CollectParticle2OneLevel E FaLv PredictPos TargetTime SibBufPatch FaSibBufPatch
       JustCountNPar ss = Inr ss'" and "collector_frame E"
  shows "length ss' = length ss \<and>
    (\<forall>r < length ss.
       shadow_frame (\<lambda>l i. int l = FaLv \<or> (int l = FaLv - 1 \<and> is_buffer (ss ! r) l i))
         (ss ! r) (ss' ! r) \<and>
       (\<forall>l < length (patch (ss ! r)). \<forall>i < length (patch (ss ! r) ! l).
          NPar (patch (ss' ! r) ! l ! i) = NPar (patch (ss ! r) ! l ! i) \<and>
          ParList (patch (ss' ! r) ! l ! i) = ParList (patch (ss ! r) ! l ! i) \<and>
          (FaLv < int l \<longrightarrow> patch (ss' ! r) ! l ! i = patch (ss ! r) ! l ! i)))"
proof -
  note F = collect_frame_rank [OF assms]
  have "NPar (patch (ss' ! r) ! l ! i) = NPar (patch (ss ! r) ! l ! i) \<and>
          ParList (patch (ss' ! r) ! l ! i) = ParList (patch (ss ! r) ! l ! i) \<and>
          (FaLv < int l \<longrightarrow> patch (ss' ! r) ! l ! i = patch (ss ! r) ! l ! i)"
    if r: "r < length ss" and l: "l < length (patch (ss ! r))" and i: "i < length (patch (ss ! r) ! l)"
    for r l i
  proof -
    define W where "W l i \<longleftrightarrow> int l = FaLv \<or> (int l = FaLv - 1 \<and> is_buffer (ss ! r) l i)" for l i
    have sf: "shadow_frame W (ss ! r) (ss' ! r)" using F(2) [OF r] unfolding W_def .
    have 1: "W l i \<longrightarrow> same_but_shadow (patch (ss ! r) ! l ! i) (patch (ss' ! r) ! l ! i)"
      and 2: "\<not> W l i \<longrightarrow> patch (ss' ! r) ! l ! i = patch (ss ! r) ! l ! i"
      using sf l i by (simp_all add: shadow_frame_def)
    have "same_but_shadow (patch (ss ! r) ! l ! i) (patch (ss' ! r) ! l ! i)"
      using 1 2 by (cases "W l i") simp_all
    moreover have "\<not> W l i" if "FaLv < int l" using that by (simp add: W_def)
    ultimately show ?thesis using 2 same_but_shadow_fields(1,2) by blast
  qed
  then show ?thesis using F by simp
qed

theorem collect_frame_witness:
  "Par_LB_CollectParticle2OneLevel demo_env 0 False (Fin 0) False False False [demo_rank0, demo_rank1]
     = Inr [demo_rank0_collected, demo_rank1] \<and>
   shadow_frame (\<lambda>l i. int l = 0 \<or> (int l = 0 - 1 \<and> is_buffer demo_rank0 l i))
     demo_rank0 demo_rank0_collected \<and>
   patch demo_rank0_collected ! 1 = patch demo_rank0 ! 1 \<and>
   map NPar (patch demo_rank0_collected ! 0) = map NPar (patch demo_rank0 ! 0) \<and>
   map ParList (patch demo_rank0_collected ! 0) = map ParList (patch demo_rank0 ! 0)"
proof -
  have c: "Par_LB_CollectParticle2OneLevel demo_env 0 False (Fin 0) False False False [demo_rank0, demo_rank1]
     = Inr [demo_rank0_collected, demo_rank1]" by code_simp
  have e: "patch demo_rank0_collected ! 1 = patch demo_rank0 ! 1"
    "map NPar (patch demo_rank0_collected ! 0) = map NPar (patch demo_rank0 ! 0)"
    "map ParList (patch demo_rank0_collected ! 0) = map ParList (patch demo_rank0 ! 0)"
    by code_simp+
  from collect_frame [OF c demo_collector_frame]
  have "shadow_frame (\<lambda>l i. int l = 0 \<or> (int l = 0 - 1 \<and> is_buffer demo_rank0 l i))
     demo_rank0 demo_rank0_collected" by force
  then show ?thesis using c e by simp
qed

subsection \<open>The check against a second initialisation\<close>

lemma check_flags_debug:
  "DEBUG_PARTICLE E \<Longrightarrow>
   check_flags E PredictPos SibBufPatch FaSibBufPatch JustCountNPar =
     (if JustCountNPar \<and> (PredictPos \<or> SibBufPatch \<or> FaSibBufPatch)
      then Inl (Aux_Error (flag_error PredictPos SibBufPatch FaSibBufPatch JustCountNPar))
      else Inr ())"
  by (simp add: check_flags_def flag_error_def fatal_if_def)

lemma check_clean_loop:
  "efold (\<lambda>p _.
       ebind (fatal_if (NPar_Copy p \<noteq> - 1) Initialized_Already) (\<lambda>_.
         fatal_if (\<not> all4 (\<lambda>a. a = None) (ParMassPos_Copy p)) Initialized_Already))
     ps () =
   (if list_all patch_clean ps then Inr () else Inl (Aux_Error Initialized_Already))"
  by (induction ps) (simp_all add: fatal_if_def patch_clean_def)

lemma check_uninitialized_debug:
  assumes "DEBUG_PARTICLE E" and "real_patches s FaLv = Inr ps"
  shows "check_uninitialized E FaLv s =
     (if uninitialized s FaLv then Inr () else Inl (Aux_Error Initialized_Already))"
  using assms by (simp add: check_uninitialized_def uninitialized_def check_clean_loop)

lemma check_uninitialized_ranks:
  assumes "DEBUG_PARTICLE E" and "\<forall>s \<in> set ss. \<exists>ps. real_patches s FaLv = Inr ps"
  shows "emap (check_uninitialized E FaLv) ss =
     (if \<forall>s \<in> set ss. uninitialized s FaLv then Inr (map (\<lambda>_. ()) ss)
      else Inl (Aux_Error Initialized_Already))"
  using assms(2)
proof (induction ss)
  case Nil
  then show ?case by simp
next
  case (Cons s ss)
  then obtain ps where "real_patches s FaLv = Inr ps" by auto
  note h = check_uninitialized_debug [OF assms(1) this]
  show ?case using Cons by (simp add: h)
qed

text \<open>
  C7, as amended. In a diagnostic build, a call at a target level not above the maximum
  level that finds shadow data in a real patch of the target level of some rank (a shadow
  count other than \<open>-1\<close> or a shadow field that is not null) ends in a fatal error, and the
  run stops there, no state being returned: the error is that of the double
  initialisation, unless the call only counts and asks for a prediction or for buffer
  patches, which the check before it reports. The level is taken to exist on every rank.
\<close>

theorem collect_twice_detected:
  assumes "DEBUG_PARTICLE E" and "FaLv \<le> MAX_LEVEL E"
    and "\<forall>s \<in> set ss. \<exists>ps. real_patches s FaLv = Inr ps"
    and "\<exists>s \<in> set ss. \<not> uninitialized s FaLv"
  shows "Par_LB_CollectParticle2OneLevel E FaLv PredictPos TargetTime SibBufPatch FaSibBufPatch
       JustCountNPar ss
     = Inl (Aux_Error (flag_error PredictPos SibBufPatch FaSibBufPatch JustCountNPar))"
proof -
  have u: "emap (check_uninitialized E FaLv) ss = Inl (Aux_Error Initialized_Already)"
    using check_uninitialized_ranks [OF assms(1,3)] assms(4) by auto
  show ?thesis
  proof (cases "JustCountNPar \<and> (PredictPos \<or> SibBufPatch \<or> FaSibBufPatch)")
    case True
    then show ?thesis
      using assms(2) check_flags_debug [OF assms(1), of PredictPos SibBufPatch FaSibBufPatch JustCountNPar]
      by (simp add: Par_LB_CollectParticle2OneLevel_def)
  next
    case False
    then have e: "flag_error PredictPos SibBufPatch FaSibBufPatch JustCountNPar = Initialized_Already"
      by (auto simp: flag_error_def)
    have f: "check_flags E PredictPos SibBufPatch FaSibBufPatch JustCountNPar = Inr ()"
      using False check_flags_debug [OF assms(1), of PredictPos SibBufPatch FaSibBufPatch JustCountNPar]
      by auto
    show ?thesis
      using assms(2) by (simp add: Par_LB_CollectParticle2OneLevel_def f u e)
  qed
qed

theorem collect_twice_detected_witness:
  "Par_LB_CollectParticle2OneLevel demo_env 0 False (Fin 0) False False False [demo_rank0, demo_rank1]
     = Inr [demo_rank0_collected, demo_rank1] \<and>
   DEBUG_PARTICLE demo_env \<and> 0 \<le> MAX_LEVEL demo_env \<and>
   real_patches demo_rank0_collected 0 = Inr (patch demo_rank0_collected ! 0) \<and>
   real_patches demo_rank1 0 = Inr [] \<and>
   \<not> uninitialized demo_rank0_collected 0 \<and>
   Par_LB_CollectParticle2OneLevel demo_env 0 False (Fin 0) False False False
       [demo_rank0_collected, demo_rank1]
     = Inl (Aux_Error Initialized_Already)"
proof -
  have c: "Par_LB_CollectParticle2OneLevel demo_env 0 False (Fin 0) False False False [demo_rank0, demo_rank1]
     = Inr [demo_rank0_collected, demo_rank1]" by code_simp
  have d: "DEBUG_PARTICLE demo_env" and m: "0 \<le> MAX_LEVEL demo_env" by (simp_all add: demo_env_def)
  have p0: "real_patches demo_rank0_collected 0 = Inr (patch demo_rank0_collected ! 0)"
    and p1: "real_patches demo_rank1 0 = Inr []" by code_simp+
  have n: "\<not> uninitialized demo_rank0_collected 0" by code_simp
  have a: "\<forall>s \<in> set [demo_rank0_collected, demo_rank1]. \<exists>ps. real_patches s 0 = Inr ps"
    using p0 p1 by simp
  have b: "\<exists>s \<in> set [demo_rank0_collected, demo_rank1]. \<not> uninitialized s 0"
    using n by simp
  have f: "flag_error False False False False = Initialized_Already" by (simp add: flag_error_def)
  show ?thesis
    using collect_twice_detected [OF d m a b, of False "Fin 0" False False False] c d m p0 p1 n f
    by simp
qed

text \<open>
  C7 as stated fails for two calls in a row at the maximum level: without the buffer
  patches the first call changes nothing, and the second one returns as the first did.
\<close>

theorem collect_twice_counterexample:
  "DEBUG_PARTICLE demo_env \<and> MAX_LEVEL demo_env = 1 \<and>
   Par_LB_CollectParticle2OneLevel demo_env 1 False (Fin 0) False False False [demo_rank0, demo_rank1]
     = Inr [demo_rank0, demo_rank1] \<and>
   ebind (Par_LB_CollectParticle2OneLevel demo_env 1 False (Fin 0) False False False
            [demo_rank0, demo_rank1])
         (Par_LB_CollectParticle2OneLevel demo_env 1 False (Fin 0) False False False)
     = Inr [demo_rank0, demo_rank1]"
  by code_simp

subsection \<open>Counting only\<close>

lemma real_patches_frame:
  assumes sf: "shadow_frame W s s'" and w: "\<And>l i. W l i \<Longrightarrow> is_buffer s l i"
  shows "real_patches s' lv = real_patches s lv"
proof (cases "0 \<le> lv \<and> nat lv < length (NPatchComma s) \<and> nat lv < length (patch s)")
  case False
  then show ?thesis
    using sf by (auto simp: real_patches_def elem_def shadow_frame_def)
next
  case True
  define n where "n = NPatchComma s ! nat lv"
  have e: "elem (NPatchComma s) lv = Inr n" "elem (NPatchComma s') lv = Inr n"
    "elem (patch s) lv = Inr (patch s ! nat lv)" "elem (patch s') lv = Inr (patch s' ! nat lv)"
    using True sf by (auto simp: elem_def n_def shadow_frame_def)
  have len: "length (patch s' ! nat lv) = length (patch s ! nat lv)"
    using True sf by (auto simp: shadow_frame_def)
  have "take (nat n) (patch s' ! nat lv) = take (nat n) (patch s ! nat lv)"
  proof (rule nth_equalityI)
    show "length (take (nat n) (patch s' ! nat lv)) = length (take (nat n) (patch s ! nat lv))"
      using len by simp
    fix i assume "i < length (take (nat n) (patch s' ! nat lv))"
    then have i: "i < nat n" "i < length (patch s ! nat lv)" using len by simp_all
    have "\<not> is_buffer s (nat lv) i" using i True e(1) by (simp add: is_buffer_def)
    then have "\<not> W (nat lv) i" using w by blast
    then have "patch s' ! nat lv ! i = patch s ! nat lv ! i"
      using sf True i by (auto simp: shadow_frame_def)
    then show "take (nat n) (patch s' ! nat lv) ! i = take (nat n) (patch s ! nat lv) ! i"
      using i by simp
  qed
  then show ?thesis using e len by (simp add: real_patches_def)
qed

lemma received_header:
  assumes a: "received E FaLv PredictPos TargetTime JustCountNPar ss = Inr rbs"
    and b: "received E FaLv PredictPos' TargetTime' JustCountNPar' ss = Inr rbs'"
    and r: "r < length ss"
  shows "RecvBuf_NParEachPatch (rbs' ! r) = RecvBuf_NParEachPatch (rbs ! r)"
    and "RecvBuf_LBIdxEachPatch (rbs' ! r) = RecvBuf_LBIdxEachPatch (rbs ! r)"
proof -
  from a obtain sbs where
    sa: "emap (prepare_send E (length ss) FaLv PredictPos TargetTime JustCountNPar) ss = Inr sbs"
    and ra: "rbs = map (Par_LB_SendParticleData (\<not> JustCountNPar) sbs) [0 ..< length ss]"
    unfolding received_def by (auto simp: ebind_Inr_iff)
  from b obtain sbs' where
    sb: "emap (prepare_send E (length ss) FaLv PredictPos' TargetTime' JustCountNPar') ss = Inr sbs'"
    and rb: "rbs' = map (Par_LB_SendParticleData (\<not> JustCountNPar') sbs') [0 ..< length ss]"
    unfolding received_def by (auto simp: ebind_Inr_iff)
  have l: "length sbs = length ss" "length sbs' = length ss"
    using sa sb by (simp_all add: emap_Inr_iff)
  have "map send_header sbs' = map send_header sbs"
  proof (rule nth_equalityI)
    show "length (map send_header sbs') = length (map send_header sbs)" using l by simp
    fix i assume "i < length (map send_header sbs')"
    then have i: "i < length ss" using l by simp
    have "prepare_send E (length ss) FaLv PredictPos TargetTime JustCountNPar (ss ! i) = Inr (sbs ! i)"
      and "prepare_send E (length ss) FaLv PredictPos' TargetTime' JustCountNPar' (ss ! i) = Inr (sbs' ! i)"
      using sa sb i by (simp_all add: emap_Inr_iff)
    then have "send_header (sbs' ! i) = send_header (sbs ! i)"
      by (rule prepare_send_flag_independent)
    then show "map send_header sbs' ! i = map send_header sbs ! i" using i l by simp
  qed
  note h = exchange_header [OF this, of "\<not> JustCountNPar'" r "\<not> JustCountNPar"]
  show "RecvBuf_NParEachPatch (rbs' ! r) = RecvBuf_NParEachPatch (rbs ! r)"
    and "RecvBuf_LBIdxEachPatch (rbs' ! r) = RecvBuf_LBIdxEachPatch (rbs ! r)"
    using h r by (simp_all add: ra rb)
qed

lemma received_for_header:
  assumes "RecvBuf_NParEachPatch rb' = RecvBuf_NParEachPatch rb"
    and "RecvBuf_LBIdxEachPatch rb' = RecvBuf_LBIdxEachPatch rb"
  shows "received_for s FaLv rb' PID = received_for s FaLv rb PID"
  using assms by (simp add: received_for_def)

text \<open>A run that only counts leaves the shadow fields of every patch as they were.\<close>

lemma count_only_fields:
  assumes c: "Par_LB_CollectParticle2OneLevel E FaLv PredictPos TargetTime SibBufPatch FaSibBufPatch
       True ss = Inr ss'" and fr: "collector_frame E" and r: "r < length ss"
    and l: "l < length (patch (ss ! r))" and i: "i < length (patch (ss ! r) ! l)"
  shows "ParMassPos_Copy (patch (ss' ! r) ! l ! i) = ParMassPos_Copy (patch (ss ! r) ! l ! i)"
proof -
  consider (above) "MAX_LEVEL E < FaLv" | (at) "FaLv = MAX_LEVEL E" | (below) "FaLv < MAX_LEVEL E"
    by linarith
  then show ?thesis
  proof cases
    case above
    then show ?thesis using c by (simp add: Par_LB_CollectParticle2OneLevel_def)
  next
    case at
    from collect_at_max [OF c at] have "ss' = ss" by (simp add: collect_buffers_def)
    then show ?thesis by simp
  next
    case below
    from collect_rank_patches [OF c below fr r] obtain rbs s1 n ps0 ps1 where
      sp: "store_post E FaLv True (rbs ! r) (ss ! r) s1 n ps0 ps1"
      and e: "ss' ! r = s1" by blast
    note D = store_postD [OF sp]
    from D(2) have f: "0 \<le> FaLv" "nat FaLv < length (patch (ss ! r))" "ps0 = patch (ss ! r) ! nat FaLv"
      by (auto simp: elem_Inr_iff)
    show ?thesis
    proof (cases "l = nat FaLv")
      case True
      then have "patch (ss' ! r) ! l ! i = ps1 ! i" using e f by (simp add: D(4))
      then show ?thesis using D(8) [of i] i True f by simp
    next
      case False
      then show ?thesis using e by (simp add: D(4))
    qed
  qed
qed

text \<open>
  C3. A run that only counts and a run that collects the data, from the same states, give
  every real patch of the target level the same shadow count, and the run that only counts
  leaves the shadow fields of every patch of every level as they were (null, where they
  were null). Below the maximum level this is what a diagnostic build guarantees, and a
  production build under the conditions the diagnostic build checks; at the maximum level
  and above it neither run writes a real patch.
\<close>

theorem count_only_equivalence:
  assumes cc: "Par_LB_CollectParticle2OneLevel E FaLv PredictPos' TargetTime' SibBufPatch'
       FaSibBufPatch' True ss = Inr ssc"
    and cf: "Par_LB_CollectParticle2OneLevel E FaLv PredictPos TargetTime SibBufPatch
       FaSibBufPatch False ss = Inr ssf"
    and fr: "collector_frame E" and r: "r < length ss"
    and pre: "MAX_LEVEL E \<le> FaLv \<or> DEBUG_PARTICLE E \<or> as_diagnosed E FaLv PredictPos TargetTime ss r"
    and ps: "real_patches (ss ! r) FaLv = Inr ps" and k: "k < length ps"
    and nn: "0 \<le> NPar (ps ! k)"
  shows "(\<exists>pc pf. real_patches (ssc ! r) FaLv = Inr pc \<and> real_patches (ssf ! r) FaLv = Inr pf \<and>
       length pc = length ps \<and> length pf = length ps \<and>
       NPar_Copy (pc ! k) = NPar_Copy (pf ! k)) \<and>
     (\<forall>l < length (patch (ss ! r)). \<forall>i < length (patch (ss ! r) ! l).
        ParMassPos_Copy (patch (ssc ! r) ! l ! i) = ParMassPos_Copy (patch (ss ! r) ! l ! i))"
proof -
  have "\<exists>pc pf. real_patches (ssc ! r) FaLv = Inr pc \<and> real_patches (ssf ! r) FaLv = Inr pf \<and>
       length pc = length ps \<and> length pf = length ps \<and>
       NPar_Copy (pc ! k) = NPar_Copy (pf ! k)"
  proof (cases "FaLv < MAX_LEVEL E")
    case False
    have c: "ssc = ss"
    proof (cases "FaLv = MAX_LEVEL E")
      case True
      from collect_at_max [OF cc True] show ?thesis by (simp add: collect_buffers_def)
    next
      case False
      then show ?thesis using cc \<open>\<not> FaLv < MAX_LEVEL E\<close>
        by (simp add: Par_LB_CollectParticle2OneLevel_def)
    qed
    have "real_patches (ssf ! r) FaLv = real_patches (ss ! r) FaLv"
    proof (cases "FaLv = MAX_LEVEL E")
      case True
      from collect_buffers_frame(2) [OF collect_at_max [OF cf True] fr r]
      show ?thesis by (rule real_patches_frame) simp
    next
      case False
      then show ?thesis using cf \<open>\<not> FaLv < MAX_LEVEL E\<close>
        by (simp add: Par_LB_CollectParticle2OneLevel_def)
    qed
    then show ?thesis using c ps by simp
  next
    case lt: True
    from collect_rank_patches [OF cf lt fr r] obtain rbs s1 n ps0 ps1 pf where
      rbs: "received E FaLv PredictPos TargetTime False ss = Inr rbs"
      and sp: "store_post E FaLv False (rbs ! r) (ss ! r) s1 n ps0 ps1"
      and rp: "real_patches (ss ! r) FaLv = Inr (take (nat n) ps0)"
      and rpf: "real_patches (ssf ! r) FaLv = Inr pf"
      and lenf: "length pf = length (take (nat n) ps0)"
      and eqf: "\<forall>k < length pf. pf ! k = ps1 ! k"
      and un: "DEBUG_PARTICLE E \<longrightarrow> uninitialized (ss ! r) FaLv"
      by blast
    from collect_rank_patches [OF cc lt fr r] obtain rbc s1c nc pc0 pc1 pc where
      rbc: "received E FaLv PredictPos' TargetTime' True ss = Inr rbc"
      and spc: "store_post E FaLv True (rbc ! r) (ss ! r) s1c nc pc0 pc1"
      and rpc: "real_patches (ssc ! r) FaLv = Inr pc"
      and lenc: "length pc = length (take (nat nc) pc0)"
      and eqc: "\<forall>k < length pc. pc ! k = pc1 ! k"
      by blast
    note D = store_postD [OF sp] and C = store_postD [OF spc]
    have same: "nc = n" "pc0 = ps0" using D(1,2) C(1,2) by simp_all
    have pseq: "ps = take (nat n) ps0" using ps rp by simp
    have kn: "k < nat n" "k < length ps0" "int k < n" using k pseq by auto
    have pk: "ps ! k = ps0 ! k" using k pseq by simp
    have pkf: "pf ! k = ps1 ! k" using eqf k lenf pseq by simp
    have pkc: "pc ! k = pc1 ! k" using eqc k lenc pseq same by simp
    have diag: "uninitialized (ss ! r) FaLv \<and> records_ok (ss ! r) FaLv (rbs ! r)"
    proof (cases "DEBUG_PARTICLE E")
      case True
      then show ?thesis using un store_post_records_ok [OF sp] by simp
    next
      case False
      then show ?thesis using pre rbs lt by (simp add: as_diagnosed_def)
    qed
    then have cl: "patch_clean (ps ! k)" using ps k by (simp add: uninitialized_def list_all_length)
    note H = received_header [OF rbs rbc r]
    have A: "received_for (ss ! r) FaLv (rbc ! r) (int k) = received_for (ss ! r) FaLv (rbs ! r) (int k)"
      using H by (rule received_for_header)
    have cntf: "NPar_Copy (ps1 ! k) = expected_count False True (ps0 ! k)
        (received_for (ss ! r) FaLv (rbs ! r) (int k))"
      using D(7) [OF kn(2)] kn(3) by simp
    have cntc: "NPar_Copy (pc1 ! k) = expected_count True True (ps0 ! k)
        (received_for (ss ! r) FaLv (rbs ! r) (int k))"
      using C(7) [of k] kn(2,3) same A by simp
    have "NPar_Copy (pc ! k) = NPar_Copy (pf ! k)"
    proof (cases "son (ps ! k) \<noteq> - 1")
      case True
      have "0 \<le> received_for (ss ! r) FaLv (rbs ! r) (int k)"
        using diag by (intro received_for_nonneg) (simp add: records_ok_def)
      then show ?thesis
        using cntf cntc True nn pk pkf pkc by (simp add: expected_nonleaf)
    next
      case False
      then have leaf: "son (ps ! k) = - 1" by simp
      have nokey: "\<forall>key \<in> set (RecvBuf_LBIdxEachPatch (rbs ! r)).
          owner_of_key (ss ! r) FaLv key \<noteq> Inr (int k)"
        using diag ps k leaf by (intro records_ok_leaf) simp_all
      then have z: "received_for (ss ! r) FaLv (rbs ! r) (int k) = 0" by (rule received_for_zero)
      have "NPar_Copy (ps0 ! k) \<le> 0" using cl pk by (simp add: patch_clean_def)
      then show ?thesis
        using cntf cntc leaf pk pkf pkc z by (simp add: expected_leaf)
    qed
    then show ?thesis using rpc rpf lenc lenf same pseq by auto
  qed
  moreover have "\<forall>l < length (patch (ss ! r)). \<forall>i < length (patch (ss ! r) ! l).
        ParMassPos_Copy (patch (ssc ! r) ! l ! i) = ParMassPos_Copy (patch (ss ! r) ! l ! i)"
    using count_only_fields [OF cc fr r] by blast
  ultimately show ?thesis by blast
qed

theorem count_only_equivalence_witness:
  "Par_LB_CollectParticle2OneLevel demo_env 0 False (Fin 0) False False True [demo_rank0, demo_rank1]
     = Inr [demo_rank0_counted, demo_rank1] \<and>
   Par_LB_CollectParticle2OneLevel demo_env 0 False (Fin 0) False False False [demo_rank0, demo_rank1]
     = Inr [demo_rank0_collected, demo_rank1] \<and>
   DEBUG_PARTICLE demo_env \<and>
   real_patches demo_rank0 0 = Inr (patch demo_rank0 ! 0) \<and>
   (\<exists>pc pf. real_patches demo_rank0_counted 0 = Inr pc \<and>
      real_patches demo_rank0_collected 0 = Inr pf \<and> length pc = 2 \<and> length pf = 2 \<and>
      NPar_Copy (pc ! 0) = NPar_Copy (pf ! 0)) \<and>
   NPar_Copy (patch demo_rank0_counted ! 0 ! 0) = 4 \<and>
   ParMassPos_Copy (patch demo_rank0_counted ! 0 ! 0) = Arr4 None None None None"
proof -
  have cc: "Par_LB_CollectParticle2OneLevel demo_env 0 False (Fin 0) False False True [demo_rank0, demo_rank1]
     = Inr [demo_rank0_counted, demo_rank1]" by code_simp
  have cf: "Par_LB_CollectParticle2OneLevel demo_env 0 False (Fin 0) False False False [demo_rank0, demo_rank1]
     = Inr [demo_rank0_collected, demo_rank1]" by code_simp
  have d: "DEBUG_PARTICLE demo_env" by (simp add: demo_env_def)
  have r: "0 < length [demo_rank0, demo_rank1]" by simp
  have ps: "real_patches ([demo_rank0, demo_rank1] ! 0) 0 = Inr (patch demo_rank0 ! 0)" by code_simp
  have k: "0 < length (patch demo_rank0 ! 0)" by code_simp
  have n: "0 \<le> NPar (patch demo_rank0 ! 0 ! 0)" by code_simp
  have v: "NPar_Copy (patch demo_rank0_counted ! 0 ! 0) = 4"
    "ParMassPos_Copy (patch demo_rank0_counted ! 0 ! 0) = Arr4 None None None None"
    "length (patch demo_rank0 ! 0) = 2"
    by code_simp+
  from count_only_equivalence [OF cc cf demo_collector_frame r disjI2 [OF disjI1 [OF d]] ps k n]
  show ?thesis using cc cf d ps v by simp
qed

subsection \<open>The positions of the collected particles\<close>



subsection \<open>Sums over lists\<close>

lemma sum_list_update_int:
  "i < length xs \<Longrightarrow> sum_list (xs[i := v]) = sum_list xs - xs ! i + (v :: int)"
proof (induction xs arbitrary: i)
  case Nil
  then show ?case by simp
next
  case (Cons x xs)
  then show ?case by (cases i) simp_all
qed

lemma slice_tiling:
  assumes "\<forall>c \<in> set cs. 0 \<le> c" and "sum_list cs \<le> int (length xs)"
  shows "concat (map (\<lambda>t. slice xs (sum_list (take t cs)) (cs ! t)) [0 ..< length cs])
       = take (nat (sum_list cs)) xs"
  using assms
proof (induction cs rule: rev_induct)
  case Nil
  then show ?case by simp
next
  case (snoc c cs)
  have c: "0 \<le> c" and p: "\<forall>c \<in> set cs. 0 \<le> c" using snoc.prems(1) by simp_all
  have s: "0 \<le> sum_list cs" using p by (simp add: sum_list_nonneg)
  have le: "sum_list cs \<le> int (length xs)" using snoc.prems(2) c by simp
  define F where "F t = slice xs (sum_list (take t (cs @ [c]))) ((cs @ [c]) ! t)" for t
  have m: "map F [0 ..< length cs] = map (\<lambda>t. slice xs (sum_list (take t cs)) (cs ! t)) [0 ..< length cs]"
    by (rule map_cong) (simp_all add: nth_append F_def)
  have l: "F (length cs) = slice xs (sum_list cs) c" by (simp add: F_def)
  have "concat (map F [0 ..< length (cs @ [c])]) = concat (map F [0 ..< length cs]) @ F (length cs)"
    by simp
  also have "\<dots> = take (nat (sum_list cs)) xs @ slice xs (sum_list cs) c"
    using snoc.IH [OF p le] by (simp only: m l)
  finally have "concat (map (\<lambda>t. slice xs (sum_list (take t (cs @ [c]))) ((cs @ [c]) ! t))
                  [0 ..< length (cs @ [c])])
      = take (nat (sum_list cs)) xs @ slice xs (sum_list cs) c"
    unfolding F_def .
  also have "\<dots> = take (nat (sum_list cs) + nat c) xs"
    by (simp add: slice_def take_add)
  also have "nat (sum_list cs) + nat c = nat (sum_list (cs @ [c]))"
    using s c by (simp add: nat_add_distrib)
  finally show ?case .
qed

lemma sum_list_swap:
  "sum_list (map (\<lambda>x. sum_list (map (\<lambda>y. f x y) ys)) xs)
     = (sum_list (map (\<lambda>y. sum_list (map (\<lambda>x. f x y) xs)) ys) :: int)"
proof (induction xs)
  case Nil
  then show ?case by simp
next
  case (Cons x xs)
  then show ?case by (simp add: sum_list_addf)
qed

lemma sum_list_concat_map:
  "sum_list (concat (map f xs)) = (sum_list (map (\<lambda>x. sum_list (f x)) xs) :: int)"
  by (induction xs) simp_all

lemma sum_by_owner:
  assumes "\<forall>z \<in> set zs. \<exists>k < n. f (fst z) = g k" and "inj_on g {..< n}"
  shows "sum_list (map (\<lambda>k. sum_list (map snd (filter (\<lambda>z. f (fst z) = g k) zs))) [0 ..< n])
       = (sum_list (map snd zs) :: int)"
  using assms(1)
proof (induction zs)
  case Nil
  then show ?case by simp
next
  case (Cons z zs)
  then obtain k0 where k0: "k0 < n" "f (fst z) = g k0" by auto
  have one: "sum_list (map (\<lambda>k. if f (fst z) = g k then snd z else 0) [0 ..< n]) = snd z"
  proof -
    have "f (fst z) = g k \<longleftrightarrow> k = k0" if "k < n" for k
      using k0 that assms(2) by (auto simp: inj_on_def)
    then have "map (\<lambda>k. if f (fst z) = g k then snd z else 0) [0 ..< n]
        = map (\<lambda>k. if k = k0 then snd z else 0) [0 ..< n]"
      by (intro map_cong) auto
    then have "sum_list (map (\<lambda>k. if f (fst z) = g k then snd z else 0) [0 ..< n])
        = sum_list (map (\<lambda>k. if k = k0 then snd z else 0) [0 ..< n])"
      by (rule arg_cong)
    moreover have "sum_list (map (\<lambda>k. if k = k0 then snd z else 0) [0 ..< n]) = snd z"
      using k0(1) by (simp add: interv_sum_list_conv_sum_set_nat)
    ultimately show ?thesis by (simp only:)
  qed
  have "sum_list (map (\<lambda>k. sum_list (map snd (filter (\<lambda>z. f (fst z) = g k) (z # zs)))) [0 ..< n])
      = sum_list (map (\<lambda>k. (if f (fst z) = g k then snd z else 0)
            + sum_list (map snd (filter (\<lambda>z. f (fst z) = g k) zs))) [0 ..< n])"
    by (intro arg_cong [where f = sum_list] map_cong) auto
  also have "\<dots> = snd z + sum_list (map snd zs)"
    using Cons one by (simp add: sum_list_addf)
  finally show ?case by simp
qed

subsection \<open>Step 1 as a counting sort\<close>

lemma send_records_Nil [simp]: "send_records E s FaLv [] = Inr []"
  by (simp add: send_records_def)

lemma send_records_Cons:
  "send_records E s FaLv (lp # scan) =
     (if NPar (snd lp) = 0 then send_records E s FaLv scan
      else ebind (send_record E s FaLv lp) (\<lambda>rec.
           ebind (send_records E s FaLv scan) (\<lambda>recs. Inr (rec # recs))))"
  by (simp add: send_records_def)

lemma records_for_Nil [simp]: "records_for [] t = 0"
  by (simp add: records_for_def)

lemma records_for_Cons: "records_for (rec # recs) t = (if fst rec = int t then 1 else 0) + records_for recs t"
  by (simp add: records_for_def)

lemma records_for_append: "records_for (xs @ ys) t = records_for xs t + records_for ys t"
  by (simp add: records_for_def)

lemma records_for_nonneg: "0 \<le> records_for recs t"
  by (simp add: records_for_def)

lemma block_start_Suc: "block_start recs (Suc t) = block_start recs t + records_for recs t"
  by (simp add: block_start_def)

lemma block_start_mono: "t \<le> u \<Longrightarrow> block_start recs t \<le> block_start recs u"
proof (induction u)
  case 0
  then show ?case by simp
next
  case (Suc u)
  then show ?case using records_for_nonneg [of recs u] by (cases "t = Suc u") (simp_all add: block_start_Suc)
qed

lemma count_patch_skip: "NPar p = 0 \<Longrightarrow> count_patch E s FaLv (lv, p) c = Inr c"
  by (simp add: count_patch_def split: prod.splits)

lemma count_patch_Inr:
  assumes "count_patch E s FaLv (lv, p) (a, b) = Inr c" and "NPar p \<noteq> 0"
  shows "\<exists>key T x y. target_rank E s FaLv lv p = Inr (key, T) \<and> elem a T = Inr x \<and>
     elem b T = Inr y \<and> c = (a[nat T := x + NPar p], b[nat T := y + 1])"
  using assms by (auto simp: count_patch_def ebind_Inr_iff iadd_Inr_iff split: prod.splits)

lemma fill_header_skip: "NPar p = 0 \<Longrightarrow> fill_header E s FaLv NP NQ (lv, p) h = Inr h"
  by (simp add: fill_header_def split: prod.splits)

lemma fill_header_Inr:
  assumes "fill_header E s FaLv NP NQ (lv, p) (offs, bn, bl) = Inr h'" and "NPar p \<noteq> 0"
  shows "\<exists>key T off bn1 bl1. target_rank E s FaLv lv p = Inr (key, T) \<and> elem offs T = Inr off \<and>
     put bn off (NPar p) = Inr bn1 \<and> put bl off key = Inr bl1 \<and>
     h' = (offs[nat T := off + 1], bn1, bl1)"
  using assms by (auto simp: fill_header_def ebind_Inr_iff iadd_Inr_iff split: prod.splits)

lemma place_Inr:
  assumes "place_record (T, key, c) (offs, bn, bl) = Inr h'"
  shows "\<exists>off bn1 bl1. elem offs T = Inr off \<and> put bn off c = Inr bn1 \<and>
     put bl off key = Inr bl1 \<and> h' = (offs[nat T := off + 1], bn1, bl1)"
  using assms by (auto simp: place_record_def ebind_Inr_iff)

text \<open>Step 1-1 counts the records of every rank.\<close>

lemma count_loop:
  assumes "efold (count_patch E s FaLv) scan (a, b) = Inr (a', b')" and "length a = length b"
  shows "\<exists>recs. send_records E s FaLv scan = Inr recs \<and>
     (\<forall>rec \<in> set recs. 0 \<le> fst rec \<and> nat (fst rec) < length b) \<and>
     length b' = length b \<and> (\<forall>t < length b. b' ! t = b ! t + records_for recs t)"
  using assms
proof (induction scan arbitrary: a b)
  case Nil
  then show ?case by simp
next
  case (Cons lp scan)
  obtain lv p where lp: "lp = (lv, p)" by (cases lp)
  show ?case
  proof (cases "NPar p = 0")
    case True
    then have "efold (count_patch E s FaLv) scan (a, b) = Inr (a', b')"
      using Cons.prems(1) by (simp add: lp count_patch_skip)
    from Cons.IH [OF this Cons.prems(2)] show ?thesis using True by (simp add: lp send_records_Cons)
  next
    case False
    from Cons.prems(1) obtain c where
      c: "count_patch E s FaLv (lv, p) (a, b) = Inr c"
      and cr: "efold (count_patch E s FaLv) scan c = Inr (a', b')"
      by (auto simp: lp ebind_Inr_iff)
    from count_patch_Inr [OF c False] cr obtain key T x y where
      tr: "target_rank E s FaLv lv p = Inr (key, T)"
      and x: "elem a T = Inr x" and y: "elem b T = Inr y"
      and rest: "efold (count_patch E s FaLv) scan (a[nat T := x + NPar p], b[nat T := y + 1])
                   = Inr (a', b')"
      by auto
    have T: "0 \<le> T" "nat T < length b" "y = b ! nat T" using y by (auto simp: elem_Inr_iff)
    from Cons.IH [OF rest] Cons.prems(2) obtain recs where
      r: "send_records E s FaLv scan = Inr recs"
      and rk: "\<forall>rec \<in> set recs. 0 \<le> fst rec \<and> nat (fst rec) < length b"
      and len: "length b' = length b"
      and b': "\<forall>t < length b. b' ! t = b[nat T := y + 1] ! t + records_for recs t"
      by auto
    have sr: "send_records E s FaLv (lp # scan) = Inr ((T, key, NPar p) # recs)"
      using False r tr by (simp add: lp send_records_Cons send_record_def)
    have "b' ! t = b ! t + records_for ((T, key, NPar p) # recs) t" if "t < length b" for t
    proof (cases "t = nat T")
      case True
      then show ?thesis using b' that T by (simp add: records_for_Cons)
    next
      case False
      then have "T \<noteq> int t" using T by auto
      then show ?thesis using b' that False by (simp add: records_for_Cons)
    qed
    then show ?thesis using sr rk len T by auto
  qed
qed

text \<open>Step 1-4 places the records, one by one.\<close>

lemma fill_loop_place:
  assumes "efold (fill_header E s FaLv NP NQ) scan h = Inr h'"
  shows "\<exists>recs. send_records E s FaLv scan = Inr recs \<and> efold place_record recs h = Inr h'"
  using assms
proof (induction scan arbitrary: h)
  case Nil
  then show ?case by simp
next
  case (Cons lp scan)
  obtain lv p where lp: "lp = (lv, p)" by (cases lp)
  obtain offs bn bl where h: "h = (offs, bn, bl)" by (cases h)
  show ?case
  proof (cases "NPar p = 0")
    case True
    then have "efold (fill_header E s FaLv NP NQ) scan h = Inr h'"
      using Cons.prems by (simp add: lp fill_header_skip)
    from Cons.IH [OF this] show ?thesis using True by (simp add: lp send_records_Cons)
  next
    case False
    from Cons.prems obtain h1 where
      c: "fill_header E s FaLv NP NQ (lv, p) (offs, bn, bl) = Inr h1"
      and cr: "efold (fill_header E s FaLv NP NQ) scan h1 = Inr h'"
      by (auto simp: lp h ebind_Inr_iff)
    from fill_header_Inr [OF c False] cr obtain key T off bn1 bl1 where
      tr: "target_rank E s FaLv lv p = Inr (key, T)"
      and off: "elem offs T = Inr off" and bn1: "put bn off (NPar p) = Inr bn1"
      and bl1: "put bl off key = Inr bl1"
      and rest: "efold (fill_header E s FaLv NP NQ) scan (offs[nat T := off + 1], bn1, bl1) = Inr h'"
      by auto
    from Cons.IH [OF rest] obtain recs where
      r: "send_records E s FaLv scan = Inr recs"
      and e: "efold place_record recs (offs[nat T := off + 1], bn1, bl1) = Inr h'" by auto
    have sr: "send_records E s FaLv (lp # scan) = Inr ((T, key, NPar p) # recs)"
      using False r tr by (simp add: lp send_records_Cons send_record_def)
    have "place_record (T, key, NPar p) h = Inr (offs[nat T := off + 1], bn1, bl1)"
      using off bn1 bl1 by (simp add: place_record_def h)
    then have "efold place_record ((T, key, NPar p) # recs) h = Inr h'" using e by simp
    then show ?thesis using sr by simp
  qed
qed

text \<open>
  The counting sort: after the records \<open>done\<close>, the offset of rank \<open>t\<close> is the offset of its
  block plus the number of its records placed, and the buffer is zero outside the filled
  part of each block. Every record then falls on a place not written before.
\<close>

lemma place_loop:
  assumes "efold place_record rest (offs, bn, bl) = Inr (offs', bn', bl')"
    and "recs = done @ rest"
    and "\<forall>rec \<in> set recs. 0 \<le> fst rec \<and> nat (fst rec) < length offs"
    and "\<forall>t < length offs. offs ! t = block_start recs t + records_for done t"
    and "\<forall>j < length bn. (\<forall>t < length offs. \<not> (block_start recs t \<le> int j \<and> int j < block_start recs t + records_for done t))
            \<longrightarrow> bn ! j = 0"
  shows "sum_list bn' = sum_list bn + sum_list (map (\<lambda>rec. snd (snd rec)) rest)"
  using assms
proof (induction rest arbitrary: "done" offs bn bl)
  case Nil
  then show ?case by simp
next
  case (Cons rec rest)
  obtain T key c where rec: "rec = (T, key, c)" by (cases rec)
  define N where "N = length offs"
  have recs: "recs = done @ rec # rest" using Cons.prems(2) .
  have T: "0 \<le> T" "nat T < N" using Cons.prems(3) by (simp_all add: recs rec N_def)
  from Cons.prems(1) obtain h1 where
    c: "place_record (T, key, c) (offs, bn, bl) = Inr h1"
    and cr: "efold place_record rest h1 = Inr (offs', bn', bl')"
    by (auto simp: rec ebind_Inr_iff)
  from place_Inr [OF c] cr obtain off bn1 bl1 where
    off: "elem offs T = Inr off" and bn1: "put bn off c = Inr bn1"
    and rest: "efold place_record rest (offs[nat T := off + 1], bn1, bl1) = Inr (offs', bn', bl')"
    by auto
  have offv: "off = block_start recs (nat T) + records_for done (nat T)"
    using off Cons.prems(4) T by (simp add: elem_Inr_iff N_def)
  have o: "0 \<le> off" "nat off < length bn" "bn1 = bn[nat off := c]"
    using bn1 by (simp_all add: put_Inr_iff)
  have le: "records_for done t \<le> records_for recs t" for t
    by (simp add: recs records_for_append records_for_nonneg)
  have lt: "records_for done (nat T) < records_for recs (nat T)"
    using T by (simp add: recs rec records_for_append records_for_Cons records_for_nonneg add_strict_increasing)
  have free: "\<not> (block_start recs t \<le> off \<and> off < block_start recs t + records_for done t)" if "t < N" for t
  proof -
    consider "t = nat T" | "t < nat T" | "nat T < t" by linarith
    then show ?thesis
    proof cases
      case 1
      then show ?thesis by (simp add: offv)
    next
      case 2
      then have "block_start recs (Suc t) \<le> block_start recs (nat T)" by (intro block_start_mono) simp
      then have "block_start recs t + records_for done t \<le> off"
        using le [of t] records_for_nonneg [of "done" "nat T"] by (simp add: block_start_Suc offv)
      then show ?thesis by simp
    next
      case 3
      then have "block_start recs (Suc (nat T)) \<le> block_start recs t" by (intro block_start_mono) simp
      then have "off < block_start recs t" using lt by (simp add: block_start_Suc offv)
      then show ?thesis by simp
    qed
  qed
  have z: "bn ! nat off = 0"
  proof -
    have "\<forall>t < length offs. \<not> (block_start recs t \<le> int (nat off) \<and> int (nat off) < block_start recs t + records_for done t)"
      using free o(1) by (simp add: N_def)
    then show ?thesis using Cons.prems(5) o(2) by blast
  qed
  have s1: "sum_list bn1 = sum_list bn + c"
    using o z by (simp add: sum_list_update_int)
  have "sum_list bn' = sum_list bn1 + sum_list (map (\<lambda>rec. snd (snd rec)) rest)"
  proof (rule Cons.IH [OF rest, of "done @ [rec]"])
    show "recs = (done @ [rec]) @ rest" by (simp add: recs)
    show "\<forall>rec \<in> set recs. 0 \<le> fst rec \<and> nat (fst rec) < length (offs[nat T := off + 1])"
      using Cons.prems(3) by simp
    show "\<forall>t < length (offs[nat T := off + 1]).
        offs[nat T := off + 1] ! t = block_start recs t + records_for (done @ [rec]) t"
    proof (intro allI impI)
      fix t assume t: "t < length (offs[nat T := off + 1])"
      show "offs[nat T := off + 1] ! t = block_start recs t + records_for (done @ [rec]) t"
      proof (cases "t = nat T")
        case True
        then show ?thesis using t T by (simp add: offv records_for_append records_for_Cons rec)
      next
        case False
        then have "T \<noteq> int t" using T by auto
        then show ?thesis using t False Cons.prems(4) by (simp add: records_for_append records_for_Cons rec)
      qed
    qed
    show "\<forall>j < length bn1.
        (\<forall>t < length (offs[nat T := off + 1]).
            \<not> (block_start recs t \<le> int j \<and> int j < block_start recs t + records_for (done @ [rec]) t)) \<longrightarrow> bn1 ! j = 0"
    proof (intro allI impI)
      fix j assume j: "j < length bn1"
        and out: "\<forall>t < length (offs[nat T := off + 1]).
            \<not> (block_start recs t \<le> int j \<and> int j < block_start recs t + records_for (done @ [rec]) t)"
      have "\<not> (block_start recs t \<le> int j \<and> int j < block_start recs t + records_for done t)" if "t < length offs" for t
        using out that records_for_nonneg [of "[rec]" t] by (auto simp: records_for_append)
      then have "bn ! j = 0" using Cons.prems(5) j o(3) by simp
      moreover have "j \<noteq> nat off"
      proof
        assume "j = nat off"
        then have "int j = off" using o(1) by simp
        moreover have "block_start recs (nat T) \<le> off \<and> off < block_start recs (nat T) + records_for (done @ [rec]) (nat T)"
          using T records_for_nonneg [of "done" "nat T"] by (simp add: offv records_for_append records_for_Cons rec)
        ultimately show False using out T by (auto simp: N_def)
      qed
      ultimately show "bn1 ! j = 0" using o(3) by simp
    qed
  qed
  then show ?case using s1 by (simp add: rec)
qed

lemma send_records_counts:
  "send_records E s FaLv scan = Inr recs \<Longrightarrow>
     sum_list (map (\<lambda>rec. snd (snd rec)) recs) = sum_list (map (\<lambda>lp. NPar (snd lp)) scan)"
proof (induction scan arbitrary: recs)
  case Nil
  then show ?case by simp
next
  case (Cons lp scan)
  show ?case
  proof (cases "NPar (snd lp) = 0")
    case True
    then show ?thesis using Cons by (simp add: send_records_Cons)
  next
    case False
    from Cons.prems False obtain rec recs' where
      r: "send_record E s FaLv lp = Inr rec" and rs: "send_records E s FaLv scan = Inr recs'"
      and e: "recs = rec # recs'"
      by (auto simp: send_records_Cons ebind_Inr_iff)
    have "snd (snd rec) = NPar (snd lp)"
      using r by (auto simp: send_record_def ebind_Inr_iff split: prod.splits)
    then show ?thesis using Cons.IH [OF rs] e by simp
  qed
qed

lemma offsets_base:
  assumes "length NP = N" and "\<forall>t < N. NP ! t = records_for recs t" and "t < N"
  shows "offsets NP ! t = block_start recs t"
proof -
  have "NP = map (records_for recs) [0 ..< N]"
    using assms(1,2) by (intro nth_equalityI) simp_all
  then have "take t NP = map (records_for recs) [0 ..< t]"
    using assms(3) by (simp add: take_map)
  then show ?thesis using assms by (simp add: offsets_def block_start_def)
qed

text \<open>
  Step 1 on one rank: the counts for the ranks are those of the blocks of the buffer, and
  the buffer of the counts holds the particle counts of the finer patches, each once.
\<close>

lemma prepare_send_total:
  assumes "prepare_send E NRank FaLv PredictPos TargetTime JustCountNPar s = Inr sb"
  shows "\<exists>scan. finer_patches E s FaLv = Inr scan \<and>
      length (SendBuf_NPatchEachRank sb) = NRank \<and>
      (\<forall>c \<in> set (SendBuf_NPatchEachRank sb). 0 \<le> c) \<and>
      sum_list (SendBuf_NPatchEachRank sb) = int (length (SendBuf_NParEachPatch sb)) \<and>
      sum_list (SendBuf_NParEachPatch sb) = sum_list (map (\<lambda>lp. NPar (snd lp)) scan)"
proof -
  from prepare_send_header [OF assms] obtain scan NQ NP offs where
    scan: "finer_patches E s FaLv = Inr scan"
    and ct: "efold (count_patch E s FaLv) scan (replicate NRank 0, replicate NRank 0) = Inr (NQ, NP)"
    and nn: "0 \<le> sum_list NP"
    and fill: "efold (fill_header E s FaLv (sum_list NP) (sum_list NQ)) scan
      (offsets NP, replicate (nat (sum_list NP)) 0, replicate (nat (sum_list NP)) 0)
      = Inr (offs, SendBuf_NParEachPatch sb, SendBuf_LBIdxEachPatch sb)"
    and np: "SendBuf_NPatchEachRank sb = NP"
    by blast
  from count_loop [OF ct] obtain recs where
    recs: "send_records E s FaLv scan = Inr recs"
    and rk: "\<forall>rec \<in> set recs. 0 \<le> fst rec \<and> nat (fst rec) < NRank"
    and len: "length NP = NRank"
    and val: "\<forall>t < NRank. NP ! t = records_for recs t"
    by auto
  from fill_loop_place [OF fill] recs have
    pl: "efold place_record recs (offsets NP, replicate (nat (sum_list NP)) 0, replicate (nat (sum_list NP)) 0)
      = Inr (offs, SendBuf_NParEachPatch sb, SendBuf_LBIdxEachPatch sb)" by auto
  have lo: "length (offsets NP) = NRank" using len by (simp add: offsets_def)
  have "sum_list (SendBuf_NParEachPatch sb)
      = sum_list (replicate (nat (sum_list NP)) (0 :: int)) + sum_list (map (\<lambda>rec. snd (snd rec)) recs)"
  proof (rule place_loop [OF pl, of recs "[]"])
    show "recs = [] @ recs" by simp
    show "\<forall>rec \<in> set recs. 0 \<le> fst rec \<and> nat (fst rec) < length (offsets NP)"
      using rk lo by simp
    show "\<forall>t < length (offsets NP). offsets NP ! t = block_start recs t + records_for [] t"
      using offsets_base [OF len val] lo by simp
    show "\<forall>j < length (replicate (nat (sum_list NP)) (0 :: int)).
        (\<forall>t < length (offsets NP). \<not> (block_start recs t \<le> int j \<and> int j < block_start recs t + records_for [] t))
          \<longrightarrow> replicate (nat (sum_list NP)) (0 :: int) ! j = 0"
      by simp
  qed
  then have total: "sum_list (SendBuf_NParEachPatch sb) = sum_list (map (\<lambda>lp. NPar (snd lp)) scan)"
    using send_records_counts [OF recs] by (simp add: sum_list_replicate)
  have "length (SendBuf_NParEachPatch sb) = nat (sum_list NP)"
    using fill_headers_lengths [OF fill] by simp
  then have l: "sum_list NP = int (length (SendBuf_NParEachPatch sb))" using nn by simp
  have pos: "\<forall>c \<in> set NP. 0 \<le> c"
    using val len records_for_nonneg by (auto simp: in_set_conv_nth)
  show ?thesis
    by (intro exI [of _ scan] conjI) (fact scan, simp add: np len, simp add: np pos,
        simp add: np l, fact total)
qed

text \<open>The exchange delivers every count of every send buffer to one rank.\<close>

lemma exchange_total:
  assumes "\<forall>sb \<in> set sbs. length (SendBuf_NPatchEachRank sb) = N \<and>
       (\<forall>c \<in> set (SendBuf_NPatchEachRank sb). 0 \<le> c) \<and>
       sum_list (SendBuf_NPatchEachRank sb) = int (length (SendBuf_NParEachPatch sb))"
  shows "sum_list (map (\<lambda>t. sum_list (RecvBuf_NParEachPatch (Par_LB_SendParticleData x sbs t))) [0 ..< N])
       = sum_list (map (\<lambda>sb. sum_list (SendBuf_NParEachPatch sb)) sbs)"
proof -
  have one: "sum_list (map (\<lambda>t. sum_list (sent_NPar sb t)) [0 ..< N]) = sum_list (SendBuf_NParEachPatch sb)"
    if sb: "sb \<in> set sbs" for sb
  proof -
    have a: "length (SendBuf_NPatchEachRank sb) = N"
      "\<forall>c \<in> set (SendBuf_NPatchEachRank sb). 0 \<le> c"
      "sum_list (SendBuf_NPatchEachRank sb) = int (length (SendBuf_NParEachPatch sb))"
      using assms sb by auto
    have "concat (map (\<lambda>t. sent_NPar sb t) [0 ..< N])
        = take (nat (sum_list (SendBuf_NPatchEachRank sb))) (SendBuf_NParEachPatch sb)"
      using slice_tiling [OF a(2), of "SendBuf_NParEachPatch sb"] a(1,3)
      by (simp add: sent_NPar_def)
    then have "concat (map (\<lambda>t. sent_NPar sb t) [0 ..< N]) = SendBuf_NParEachPatch sb"
      using a(3) by simp
    then have "sum_list (concat (map (\<lambda>t. sent_NPar sb t) [0 ..< N])) = sum_list (SendBuf_NParEachPatch sb)"
      by simp
    then show ?thesis by (simp only: sum_list_concat_map)
  qed
  have "sum_list (map (\<lambda>t. sum_list (RecvBuf_NParEachPatch (Par_LB_SendParticleData x sbs t))) [0 ..< N])
      = sum_list (map (\<lambda>t. sum_list (map (\<lambda>sb. sum_list (sent_NPar sb t)) sbs)) [0 ..< N])"
    by (simp add: Par_LB_SendParticleData_def sum_list_concat_map)
  also have "\<dots> = sum_list (map (\<lambda>sb. sum_list (map (\<lambda>t. sum_list (sent_NPar sb t)) [0 ..< N])) sbs)"
    by (rule sum_list_swap)
  also have "\<dots> = sum_list (map (\<lambda>sb. sum_list (SendBuf_NParEachPatch sb)) sbs)"
    by (intro arg_cong [where f = sum_list] map_cong refl one)
  finally show ?thesis .
qed

subsection \<open>The particle tables\<close>

lemma efold_ladd: "efold (\<lambda>x total. ladd E total x) xs a = Inr t \<Longrightarrow> t = a + sum_list xs"
  by (induction xs arbitrary: a) (fastforce simp: ebind_Inr_iff ladd_def split: if_splits)+

lemma lsum_Inr: "lsum E xs = Inr t \<Longrightarrow> t = sum_list xs"
  unfolding lsum_def by (drule efold_ladd) simp

lemma NParLocal_Get_counted: "NParLocal_Get E s FaLv = Inr g \<Longrightarrow> counted s FaLv = Inr g"
  by (auto simp: NParLocal_Get_def counted_def ebind_Inr_iff dest: lsum_Inr)

lemma NParLocal_Check_tracked: "NParLocal_Check E s FaLv = Inr h \<Longrightarrow> tracked E s FaLv = Inr h"
  by (auto simp: NParLocal_Check_def tracked_def ebind_Inr_iff dest: lsum_Inr)

lemma MPI_Reduce_sum_Inr: "MPI_Reduce_sum E xs = Inr t \<Longrightarrow> t = sum_list xs"
  by (auto simp: MPI_Reduce_sum_def split: if_splits)

lemma level_sums:
  assumes "list_all (\<lambda>lv. case elem tbl lv of
                       Inr c \<Rightarrow> (case real_patches s lv of
                                    Inr ps \<Rightarrow> c = sum_list (map NPar ps)
                                  | Inl _ \<Rightarrow> False)
                     | Inl _ \<Rightarrow> False) lvs"
  shows "\<exists>ns pss. emap (elem tbl) lvs = Inr ns \<and>
     emap (\<lambda>lv. ebind (real_patches s lv) (\<lambda>ps. Inr (map (Pair lv) ps))) lvs = Inr pss \<and>
     sum_list ns = sum_list (map (\<lambda>lp. NPar (snd lp)) (concat pss))"
  using assms
proof (induction lvs)
  case Nil
  then show ?case by simp
next
  case (Cons lv lvs)
  from Cons.prems obtain c ps where
    c: "elem tbl lv = Inr c" and ps: "real_patches s lv = Inr ps" and e: "c = sum_list (map NPar ps)"
    by (auto split: sum.splits)
  from Cons obtain ns pss where
    ns: "emap (elem tbl) lvs = Inr ns"
    and pss: "emap (\<lambda>lv. ebind (real_patches s lv) (\<lambda>ps. Inr (map (Pair lv) ps))) lvs = Inr pss"
    and s: "sum_list ns = sum_list (map (\<lambda>lp. NPar (snd lp)) (concat pss))"
    by auto
  have "sum_list (c # ns) = sum_list (map (\<lambda>lp. NPar (snd lp)) (concat (map (Pair lv) ps # pss)))"
    using s e by (simp add: o_def)
  then show ?case using c ps ns pss
    by (intro exI [of _ "c # ns"] exI [of _ "map (Pair lv) ps # pss"]) simp
qed

lemma check_value:
  assumes "tables_consistent E s FaLv" and "FaLv \<le> MAX_LEVEL E"
  shows "\<exists>ps scan. real_patches s FaLv = Inr ps \<and> finer_patches E s FaLv = Inr scan \<and>
     tracked E s FaLv
       = Inr (sum_list (map NPar ps) + sum_list (map (\<lambda>lp. NPar (snd lp)) scan))"
proof -
  have u: "[FaLv .. MAX_LEVEL E] = FaLv # [FaLv + 1 .. MAX_LEVEL E]"
    using assms(2) by (rule upto_rec1)
  from assms(1) obtain c ps where
    c: "elem (NPar_Lv (Par s)) FaLv = Inr c" and ps: "real_patches s FaLv = Inr ps"
    and e: "c = sum_list (map NPar ps)"
    and rest: "list_all (\<lambda>lv. case elem (NPar_Lv (Par s)) lv of
                       Inr c \<Rightarrow> (case real_patches s lv of
                                    Inr ps \<Rightarrow> c = sum_list (map NPar ps)
                                  | Inl _ \<Rightarrow> False)
                     | Inl _ \<Rightarrow> False) [FaLv + 1 .. MAX_LEVEL E]"
    unfolding tables_consistent_def u by (auto split: sum.splits)
  from level_sums [OF rest] obtain ns pss where
    ns: "emap (elem (NPar_Lv (Par s))) [FaLv + 1 .. MAX_LEVEL E] = Inr ns"
    and pss: "emap (\<lambda>lv. ebind (real_patches s lv) (\<lambda>ps. Inr (map (Pair lv) ps)))
                [FaLv + 1 .. MAX_LEVEL E] = Inr pss"
    and s: "sum_list ns = sum_list (map (\<lambda>lp. NPar (snd lp)) (concat pss))"
    by blast
  have f: "finer_patches E s FaLv = Inr (concat pss)"
    using pss by (simp add: finer_patches_def)
  have "tracked E s FaLv = Inr (c + sum_list ns)"
    unfolding tracked_def u using c ns by simp
  then have "tracked E s FaLv
       = Inr (sum_list (map NPar ps) + sum_list (map (\<lambda>lp. NPar (snd lp)) (concat pss)))"
    using e s by simp
  then show ?thesis using ps f by blast
qed

lemma sum_list_nth_upt:
  "sum_list (map f xs) = (sum_list (map (\<lambda>k. f (xs ! k)) [0 ..< length xs]) :: int)"
proof -
  have "map f xs = map (\<lambda>k. f (xs ! k)) [0 ..< length xs]"
    by (intro nth_equalityI) simp_all
  then show ?thesis by (rule arg_cong)
qed

text \<open>
  Steps 3 and 4 on one rank: the particles counted on the real patches of the target level
  are its own particles at that level and those of all the records it received.
\<close>

lemma rank_get:
  assumes sp: "store_post E FaLv JustCountNPar rb s s1 n ps0 ps1"
    and ok: "records_ok s FaLv rb" and un: "uninitialized s FaLv"
    and nn: "\<forall>k < nat n. son (ps0 ! k) \<noteq> - 1 \<longrightarrow> 0 \<le> NPar (ps0 ! k)"
    and len: "length (RecvBuf_LBIdxEachPatch rb) = length (RecvBuf_NParEachPatch rb)"
  shows "sum_list (map (\<lambda>p. if son p = - 1 then NPar p else NPar_Copy p) (take (nat n) ps1))
     = sum_list (map NPar (take (nat n) ps0)) + sum_list (RecvBuf_NParEachPatch rb)"
proof -
  note D = store_postD [OF sp]
  have rp: "real_patches s FaLv = Inr (take (nat n) ps0)"
    using D(1,2,3) by (simp add: real_patches_def)
  have ln: "length (take (nat n) ps0) = nat n" "length (take (nat n) ps1) = nat n"
    using D(3,5) by simp_all
  have pos: "list_all (\<lambda>c. 0 < c) (RecvBuf_NParEachPatch rb)" using ok by (simp add: records_ok_def)
  have tk: "(if son (ps1 ! k) = - 1 then NPar (ps1 ! k) else NPar_Copy (ps1 ! k))
      = NPar (ps0 ! k) + received_for s FaLv rb (int k)" if k: "k < nat n" for k
  proof -
    have k0: "k < length ps0" "int k < n" using k D(3) by auto
    note F = same_but_shadow_fields [OF D(6) [OF k0(1)]]
    show ?thesis
    proof (cases "son (ps0 ! k) = - 1")
      case True
      have "son (take (nat n) ps0 ! k) = - 1" using True k by simp
      then have "\<forall>key \<in> set (RecvBuf_LBIdxEachPatch rb). owner_of_key s FaLv key \<noteq> Inr (int k)"
        using k ln by (intro records_ok_leaf [OF ok rp]) simp_all
      then have "received_for s FaLv rb (int k) = 0" by (rule received_for_zero)
      then show ?thesis using True F by simp
    next
      case False
      have "0 \<le> received_for s FaLv rb (int k)" using pos by (rule received_for_nonneg)
      moreover have "0 \<le> NPar (ps0 ! k)" using nn k False by simp
      ultimately have "expected_count JustCountNPar True (ps0 ! k) (received_for s FaLv rb (int k))
          = NPar (ps0 ! k) + received_for s FaLv rb (int k)"
        using False by (simp add: expected_nonleaf)
      then show ?thesis using D(7) [OF k0(1)] k0(2) False F by simp
    qed
  qed
  have own: "\<forall>z \<in> set (zip (RecvBuf_LBIdxEachPatch rb) (RecvBuf_NParEachPatch rb)).
      \<exists>k < nat n. owner_of_key s FaLv (fst z) = Inr (int k)"
  proof
    fix z assume "z \<in> set (zip (RecvBuf_LBIdxEachPatch rb) (RecvBuf_NParEachPatch rb))"
    then have "(fst z, snd z) \<in> set (zip (RecvBuf_LBIdxEachPatch rb) (RecvBuf_NParEachPatch rb))"
      by simp
    then have "fst z \<in> set (RecvBuf_LBIdxEachPatch rb)" by (rule set_zip_leftD)
    then have "case owner_of_key s FaLv (fst z) of Inr ow \<Rightarrow> 0 \<le> ow \<and> nat ow < nat n
        | Inl _ \<Rightarrow> False"
      using ok rp ln by (auto simp: records_ok_def list_all_iff split: sum.splits)
    then obtain ow where "owner_of_key s FaLv (fst z) = Inr ow" "0 \<le> ow" "nat ow < nat n"
      by (cases "owner_of_key s FaLv (fst z)") auto
    then show "\<exists>k < nat n. owner_of_key s FaLv (fst z) = Inr (int k)"
      by (intro exI [of _ "nat ow"]) simp
  qed
  have inj: "inj_on (\<lambda>k. (Inr (int k) :: error + int)) {..< nat n}" by (simp add: inj_on_def)
  have recv: "sum_list (map (\<lambda>k. received_for s FaLv rb (int k)) [0 ..< nat n])
      = sum_list (RecvBuf_NParEachPatch rb)"
    using sum_by_owner [OF own inj] len by (simp add: received_for_def)
  have "sum_list (map (\<lambda>p. if son p = - 1 then NPar p else NPar_Copy p) (take (nat n) ps1))
      = sum_list (map (\<lambda>k. if son (take (nat n) ps1 ! k) = - 1 then NPar (take (nat n) ps1 ! k)
                              else NPar_Copy (take (nat n) ps1 ! k)) [0 ..< nat n])"
    using sum_list_nth_upt [of "\<lambda>p. if son p = - 1 then NPar p else NPar_Copy p" "take (nat n) ps1"]
    by (simp only: ln)
  also have "\<dots> = sum_list (map (\<lambda>k. NPar (take (nat n) ps0 ! k) + received_for s FaLv rb (int k))
                              [0 ..< nat n])"
  proof (intro arg_cong [where f = sum_list] map_cong refl)
    fix k assume "k \<in> set [0 ..< nat n]"
    then have k: "k < nat n" by simp
    show "(if son (take (nat n) ps1 ! k) = - 1 then NPar (take (nat n) ps1 ! k)
           else NPar_Copy (take (nat n) ps1 ! k))
        = NPar (take (nat n) ps0 ! k) + received_for s FaLv rb (int k)"
      using tk [OF k] k by (auto split: if_splits)
  qed
  also have "\<dots> = sum_list (map (\<lambda>k. NPar (take (nat n) ps0 ! k)) [0 ..< nat n])
      + sum_list (map (\<lambda>k. received_for s FaLv rb (int k)) [0 ..< nat n])"
    by (simp add: sum_list_addf)
  also have "sum_list (map (\<lambda>k. NPar (take (nat n) ps0 ! k)) [0 ..< nat n])
      = sum_list (map NPar (take (nat n) ps0))"
    using sum_list_nth_upt [of NPar "take (nat n) ps0"] by (simp only: ln)
  finally show ?thesis using recv by simp
qed

subsection \<open>Conservation of the particles\<close>

lemma totals_from_ranks:
  assumes "length ss' = N"
    and "\<forall>r < N. counted (ss' ! r) FaLv = Inr (g r)"
    and "\<forall>r < N. tracked E (ss' ! r) FaLv = Inr (h r)"
    and "sum_list (map g [0 ..< N]) = sum_list (map h [0 ..< N])"
  shows "\<exists>gets checks. emap (\<lambda>s. counted s FaLv) ss' = Inr gets \<and>
     emap (\<lambda>s. tracked E s FaLv) ss' = Inr checks \<and> sum_list gets = sum_list checks"
proof -
  have 1: "emap (\<lambda>s. counted s FaLv) ss' = Inr (map g [0 ..< N])"
    using assms(1,2) by (simp add: emap_Inr_iff)
  have 2: "emap (\<lambda>s. tracked E s FaLv) ss' = Inr (map h [0 ..< N])"
    using assms(1,3) by (simp add: emap_Inr_iff)
  show ?thesis using 1 2 assms(4) by blast
qed

lemma counted_frame:
  assumes "shadow_frame W s s'" and "\<And>l i. W l i \<Longrightarrow> is_buffer s l i"
  shows "counted s' FaLv = counted s FaLv"
  using real_patches_frame [OF assms, of FaLv] by (simp add: counted_def)

lemma tracked_frame:
  assumes "shadow_frame W s s'"
  shows "tracked E s' FaLv = tracked E s FaLv"
  using assms by (simp add: tracked_def shadow_frame_def)

lemma records_ok_header:
  assumes "RecvBuf_NParEachPatch rb' = RecvBuf_NParEachPatch rb"
    and "RecvBuf_LBIdxEachPatch rb' = RecvBuf_LBIdxEachPatch rb"
  shows "records_ok s FaLv rb' = records_ok s FaLv rb"
  using assms by (simp add: records_ok_def)

text \<open>The diagnostic build below the maximum level: step 5 has compared the two sums.\<close>

lemma conservation_checked:
  assumes c: "Par_LB_CollectParticle2OneLevel E FaLv PredictPos TargetTime SibBufPatch FaSibBufPatch
       JustCountNPar ss = Inr ss'"
    and lt: "FaLv < MAX_LEVEL E" and fr: "collector_frame E" and d: "DEBUG_PARTICLE E"
  shows "\<exists>gets checks. emap (\<lambda>s. counted s FaLv) ss' = Inr gets \<and>
     emap (\<lambda>s. tracked E s FaLv) ss' = Inr checks \<and> sum_list gets = sum_list checks"
proof -
  from collect_below_Inr [OF c lt] obtain ss1 where
    ct: "check_total E FaLv ss1 = Inr ()"
    and cb: "collect_buffers E FaLv PredictPos TargetTime SibBufPatch FaSibBufPatch JustCountNPar ss1
           = Inr ss'" by blast
  from ct d obtain gets checks a b where
    g0: "emap (\<lambda>s. NParLocal_Get E s FaLv) ss1 = Inr gets"
    and h0: "emap (\<lambda>s. NParLocal_Check E s FaLv) ss1 = Inr checks"
    and a: "MPI_Reduce_sum E gets = Inr a" and b: "MPI_Reduce_sum E checks = Inr b"
    and e0: "\<not> (ss1 \<noteq> [] \<and> a \<noteq> b)"
    by (auto simp: check_total_def ebind_Inr_iff fatal_if_Inr_iff)
  have g: "emap (\<lambda>s. counted s FaLv) ss1 = Inr gets"
    using g0 by (auto simp: emap_Inr_iff dest: NParLocal_Get_counted)
  have h: "emap (\<lambda>s. tracked E s FaLv) ss1 = Inr checks"
    using h0 by (auto simp: emap_Inr_iff dest: NParLocal_Check_tracked)
  have e: "\<not> (ss1 \<noteq> [] \<and> sum_list gets \<noteq> sum_list checks)"
    using e0 MPI_Reduce_sum_Inr [OF a] MPI_Reduce_sum_Inr [OF b] by simp
  have eq: "sum_list gets = sum_list checks"
  proof (cases "ss1 = []")
    case True
    then show ?thesis using g h by simp
  next
    case False
    then show ?thesis using e by simp
  qed
  note F = collect_buffers_frame [OF cb fr]
  have lg: "length gets = length ss1" "length checks = length ss1"
    using g h by (simp_all add: emap_Inr_iff)
  show ?thesis
  proof (rule totals_from_ranks [of ss' "length ss1" FaLv "\<lambda>r. gets ! r" E "\<lambda>r. checks ! r"])
    show "length ss' = length ss1" by (rule F(1))
    show "\<forall>r < length ss1. counted (ss' ! r) FaLv = Inr (gets ! r)"
    proof (intro allI impI)
      fix r assume r: "r < length ss1"
      have "counted (ss' ! r) FaLv = counted (ss1 ! r) FaLv"
        by (rule counted_frame [OF F(2) [OF r]]) simp
      then show "counted (ss' ! r) FaLv = Inr (gets ! r)"
        using g r by (simp add: emap_Inr_iff)
    qed
    show "\<forall>r < length ss1. tracked E (ss' ! r) FaLv = Inr (checks ! r)"
    proof (intro allI impI)
      fix r assume r: "r < length ss1"
      have "tracked E (ss' ! r) FaLv = tracked E (ss1 ! r) FaLv"
        by (rule tracked_frame [OF F(2) [OF r]])
      then show "tracked E (ss' ! r) FaLv = Inr (checks ! r)"
        using h r by (simp add: emap_Inr_iff)
    qed
    show "sum_list (map (\<lambda>r. gets ! r) [0 ..< length ss1])
        = sum_list (map (\<lambda>r. checks ! r) [0 ..< length ss1])"
      using eq lg map_nth [of gets] map_nth [of checks] by simp
  qed
qed

text \<open>At the maximum level the real patches are not written, and all of them are leaves.\<close>

lemma conservation_at_max:
  assumes c: "Par_LB_CollectParticle2OneLevel E FaLv PredictPos TargetTime SibBufPatch FaSibBufPatch
       JustCountNPar ss = Inr ss'"
    and at: "FaLv = MAX_LEVEL E" and fr: "collector_frame E"
    and bk: "\<forall>r < length ss. bookkept E FaLv PredictPos TargetTime ss r"
  shows "\<exists>gets checks. emap (\<lambda>s. counted s FaLv) ss' = Inr gets \<and>
     emap (\<lambda>s. tracked E s FaLv) ss' = Inr checks \<and> sum_list gets = sum_list checks"
proof -
  note F = collect_buffers_frame [OF collect_at_max [OF c at] fr]
  define own where "own r = (case real_patches (ss ! r) FaLv of Inr ps \<Rightarrow> sum_list (map NPar ps)
      | Inl _ \<Rightarrow> 0)" for r
  have both: "counted (ss' ! r) FaLv = Inr (own r) \<and> tracked E (ss' ! r) FaLv = Inr (own r)"
    if r: "r < length ss" for r
  proof -
    have b: "bookkept E FaLv PredictPos TargetTime ss r" using bk r by simp
    then have tc: "tables_consistent E (ss ! r) FaLv" by (simp add: bookkept_def)
    from check_value [OF tc] at obtain ps scan where
      ps: "real_patches (ss ! r) FaLv = Inr ps"
      and scan: "finer_patches E (ss ! r) FaLv = Inr scan"
      and chk: "tracked E (ss ! r) FaLv
         = Inr (sum_list (map NPar ps) + sum_list (map (\<lambda>lp. NPar (snd lp)) scan))" by auto
    have "scan = []" using scan at by (simp add: finer_patches_def)
    then have 1: "tracked E (ss ! r) FaLv = Inr (own r)" using chk ps by (simp add: own_def)
    have leaves: "list_all (\<lambda>p. son p = - 1) ps" using b ps at by (simp add: bookkept_def)
    then have "map (\<lambda>p. if son p = - 1 then NPar p else NPar_Copy p) ps = map NPar ps"
      by (auto simp: list_all_iff)
    then have "sum_list (map (\<lambda>p. if son p = - 1 then NPar p else NPar_Copy p) ps)
        = sum_list (map NPar ps)" by (rule arg_cong)
    then have 2: "counted (ss ! r) FaLv = Inr (own r)"
      using ps by (simp add: counted_def own_def)
    have "counted (ss' ! r) FaLv = counted (ss ! r) FaLv"
      by (rule counted_frame [OF F(2) [OF r]]) simp
    moreover have "tracked E (ss' ! r) FaLv = tracked E (ss ! r) FaLv"
      by (rule tracked_frame [OF F(2) [OF r]])
    ultimately show ?thesis using 1 2 by simp
  qed
  show ?thesis
    by (rule totals_from_ranks [of ss' "length ss" FaLv own E own]) (simp_all add: F(1) both)
qed

text \<open>
  Below the maximum level, from the bookkeeping: what the ranks count on the target level
  is what they hold there and what they received, and what they received is what the ranks
  hold on the finer levels.
\<close>

lemma conservation_below:
  assumes c: "Par_LB_CollectParticle2OneLevel E FaLv PredictPos TargetTime SibBufPatch FaSibBufPatch
       JustCountNPar ss = Inr ss'"
    and lt: "FaLv < MAX_LEVEL E" and fr: "collector_frame E"
    and bk: "\<forall>r < length ss. bookkept E FaLv PredictPos TargetTime ss r"
  shows "\<exists>gets checks. emap (\<lambda>s. counted s FaLv) ss' = Inr gets \<and>
     emap (\<lambda>s. tracked E s FaLv) ss' = Inr checks \<and> sum_list gets = sum_list checks"
proof -
  define N where "N = length ss"
  from collect_below_Inr [OF c lt] obtain sbs where
    sbs: "emap (prepare_send E (length ss) FaLv PredictPos TargetTime JustCountNPar) ss = Inr sbs"
    by blast
  define rbs where "rbs = map (Par_LB_SendParticleData (\<not> JustCountNPar) sbs) [0 ..< length ss]"
  have rcv: "received E FaLv PredictPos TargetTime JustCountNPar ss = Inr rbs"
    using sbs by (simp add: received_def rbs_def)
  have ls: "length sbs = N" using sbs by (simp add: emap_Inr_iff N_def)
  have ps_r: "prepare_send E N FaLv PredictPos TargetTime JustCountNPar (ss ! r) = Inr (sbs ! r)"
    if "r < N" for r using sbs that by (simp add: emap_Inr_iff N_def)
  define own where "own r = (case real_patches (ss ! r) FaLv of Inr ps \<Rightarrow> sum_list (map NPar ps)
      | Inl _ \<Rightarrow> 0)" for r
  define fin where "fin r = sum_list (SendBuf_NParEachPatch (sbs ! r))" for r
  define got where "got r = sum_list (RecvBuf_NParEachPatch (rbs ! r))" for r
  have len': "length ss' = N" using collect_frame_rank(1) [OF c fr] by (simp add: N_def)
  have chk: "tracked E (ss' ! r) FaLv = Inr (own r + fin r)" if r: "r < N" for r
  proof -
    have b: "bookkept E FaLv PredictPos TargetTime ss r" using bk r by (simp add: N_def)
    then have tc: "tables_consistent E (ss ! r) FaLv" by (simp add: bookkept_def)
    from check_value [OF tc] lt obtain ps scan where
      ps: "real_patches (ss ! r) FaLv = Inr ps"
      and scan: "finer_patches E (ss ! r) FaLv = Inr scan"
      and v: "tracked E (ss ! r) FaLv
         = Inr (sum_list (map NPar ps) + sum_list (map (\<lambda>lp. NPar (snd lp)) scan))" by auto
    from prepare_send_total [OF ps_r [OF r]] scan
    have "fin r = sum_list (map (\<lambda>lp. NPar (snd lp)) scan)" by (auto simp: fin_def)
    then have "tracked E (ss ! r) FaLv = Inr (own r + fin r)"
      using v ps by (simp add: own_def)
    moreover have "tracked E (ss' ! r) FaLv = tracked E (ss ! r) FaLv"
      using r by (intro tracked_frame [OF collect_frame_rank(2) [OF c fr]]) (simp add: N_def)
    ultimately show ?thesis by simp
  qed
  have get: "counted (ss' ! r) FaLv = Inr (own r + got r)" if r: "r < N" for r
  proof -
    have r': "r < length ss" using r by (simp add: N_def)
    have b: "bookkept E FaLv PredictPos TargetTime ss r" using bk r' by simp
    from collect_rank [OF c lt fr r'] rcv have
      len: "length (RecvBuf_LBIdxEachPatch (rbs ! r)) = length (RecvBuf_NParEachPatch (rbs ! r))"
      by auto
    from collect_rank_patches [OF c lt fr r'] rcv obtain s1 n ps0 ps1 ps' where
      sp: "store_post E FaLv JustCountNPar (rbs ! r) (ss ! r) s1 n ps0 ps1"
      and rp: "real_patches (ss ! r) FaLv = Inr (take (nat n) ps0)"
      and rp': "real_patches (ss' ! r) FaLv = Inr ps'"
      and l': "length ps' = length (take (nat n) ps0)"
      and eq: "\<forall>k < length ps'. ps' ! k = ps1 ! k"
      by auto
    note D = store_postD [OF sp]
    have ps': "ps' = take (nat n) ps1"
      using l' eq D(3,5) by (intro nth_equalityI) simp_all
    from b lt have ad: "as_diagnosed E FaLv PredictPos TargetTime ss r" by (simp add: bookkept_def)
    then obtain rbf where
      rf: "received E FaLv PredictPos TargetTime False ss = Inr rbf"
      and okf: "records_ok (ss ! r) FaLv (rbf ! r)"
      and un: "uninitialized (ss ! r) FaLv"
      by (auto simp: as_diagnosed_def split: sum.splits)
    note H = received_header [OF rf rcv r']
    have ok: "records_ok (ss ! r) FaLv (rbs ! r)"
      using okf records_ok_header [OF H] by simp
    have nn: "\<forall>k < nat n. son (ps0 ! k) \<noteq> - 1 \<longrightarrow> 0 \<le> NPar (ps0 ! k)"
    proof (intro allI impI)
      fix k assume k: "k < nat n" and s: "son (ps0 ! k) \<noteq> - 1"
      have "list_all (\<lambda>p. son p \<noteq> - 1 \<longrightarrow> 0 \<le> NPar p) (take (nat n) ps0)"
        using b rp lt by (simp add: bookkept_def)
      moreover have "k < length (take (nat n) ps0)" using k D(3) by simp
      ultimately have "son (take (nat n) ps0 ! k) \<noteq> - 1 \<longrightarrow> 0 \<le> NPar (take (nat n) ps0 ! k)"
        unfolding list_all_length by blast
      then show "0 \<le> NPar (ps0 ! k)" using k s by simp
    qed
    from rank_get [OF sp ok un nn len]
    have "sum_list (map (\<lambda>p. if son p = - 1 then NPar p else NPar_Copy p) ps') = own r + got r"
      using rp by (simp add: ps' own_def got_def)
    then show ?thesis using rp' by (simp add: counted_def)
  qed
  have ex: "sum_list (map got [0 ..< N]) = sum_list (map fin [0 ..< N])"
  proof -
    have cond: "\<forall>sb \<in> set sbs. length (SendBuf_NPatchEachRank sb) = N \<and>
       (\<forall>c \<in> set (SendBuf_NPatchEachRank sb). 0 \<le> c) \<and>
       sum_list (SendBuf_NPatchEachRank sb) = int (length (SendBuf_NParEachPatch sb))"
    proof
      fix sb assume "sb \<in> set sbs"
      then obtain r where r: "r < N" "sb = sbs ! r" using ls by (auto simp: in_set_conv_nth)
      from prepare_send_total [OF ps_r [OF r(1)]] r(2)
      show "length (SendBuf_NPatchEachRank sb) = N \<and>
       (\<forall>c \<in> set (SendBuf_NPatchEachRank sb). 0 \<le> c) \<and>
       sum_list (SendBuf_NPatchEachRank sb) = int (length (SendBuf_NParEachPatch sb))" by auto
    qed
    have "map got [0 ..< N]
        = map (\<lambda>t. sum_list (RecvBuf_NParEachPatch (Par_LB_SendParticleData (\<not> JustCountNPar) sbs t)))
            [0 ..< N]"
      by (rule map_cong) (simp_all add: got_def rbs_def N_def)
    then have "sum_list (map got [0 ..< N])
        = sum_list (map (\<lambda>t. sum_list (RecvBuf_NParEachPatch
              (Par_LB_SendParticleData (\<not> JustCountNPar) sbs t))) [0 ..< N])"
      by (rule arg_cong)
    also have "\<dots> = sum_list (map (\<lambda>sb. sum_list (SendBuf_NParEachPatch sb)) sbs)"
      by (rule exchange_total [OF cond])
    also have "\<dots> = sum_list (map fin [0 ..< N])"
    proof -
      have "fin = (\<lambda>r. sum_list (SendBuf_NParEachPatch (sbs ! r)))"
        by (rule ext) (simp add: fin_def)
      then show ?thesis
        using sum_list_nth_upt [of "\<lambda>sb. sum_list (SendBuf_NParEachPatch sb)" sbs]
        by (simp add: ls)
    qed
    finally show ?thesis .
  qed
  show ?thesis
  proof (rule totals_from_ranks [of ss' N FaLv "\<lambda>r. own r + got r" E "\<lambda>r. own r + fin r"])
    show "length ss' = N" by (rule len')
    show "\<forall>r < N. counted (ss' ! r) FaLv = Inr (own r + got r)" using get by simp
    show "\<forall>r < N. tracked E (ss' ! r) FaLv = Inr (own r + fin r)" using chk by simp
    show "sum_list (map (\<lambda>r. own r + got r) [0 ..< N]) = sum_list (map (\<lambda>r. own r + fin r) [0 ..< N])"
      using ex by (simp add: sum_list_addf)
  qed
qed

text \<open>
  C2. After a call at a target level not above the maximum level, the particles counted on
  the real patches of the target level (\<open>NPar\<close> of a patch without son, \<open>NPar_Copy\<close> of a
  patch with a son), summed over all ranks, are as many as the tables \<open>NPar_Lv\<close> of all
  ranks hold for the levels from the target level up; the two sides are sums of integers.
  A diagnostic build below the maximum level guarantees it on return, by the comparison of
  step 5; in every other case it holds when the bookkeeping of every rank is in order
  (\<open>bookkept\<close>). A call in which a counter leaves the type \<^verbatim>\<open>int\<close>, or a sum of step 5 the
  type \<^verbatim>\<open>long\<close>, does not return a state: its result is \<open>Undefined\<close>.
\<close>

theorem collect_conservation:
  assumes "Par_LB_CollectParticle2OneLevel E FaLv PredictPos TargetTime SibBufPatch FaSibBufPatch
       JustCountNPar ss = Inr ss'"
    and "FaLv \<le> MAX_LEVEL E" and "collector_frame E"
    and "DEBUG_PARTICLE E \<and> FaLv < MAX_LEVEL E \<or>
         (\<forall>r < length ss. bookkept E FaLv PredictPos TargetTime ss r)"
  shows "\<exists>gets checks. emap (\<lambda>s. counted s FaLv) ss' = Inr gets \<and>
     emap (\<lambda>s. tracked E s FaLv) ss' = Inr checks \<and> sum_list gets = sum_list checks"
proof (cases "DEBUG_PARTICLE E \<and> FaLv < MAX_LEVEL E")
  case True
  then show ?thesis using conservation_checked [OF assms(1) _ assms(3)] by blast
next
  case False
  then have bk: "\<forall>r < length ss. bookkept E FaLv PredictPos TargetTime ss r"
    using assms(4) by blast
  show ?thesis
  proof (cases "FaLv = MAX_LEVEL E")
    case True
    then show ?thesis by (rule conservation_at_max [OF assms(1) _ assms(3) bk])
  next
    case False
    then have "FaLv < MAX_LEVEL E" using assms(2) by simp
    then show ?thesis by (rule conservation_below [OF assms(1) _ assms(3) bk])
  qed
qed

theorem collect_conservation_witness:
  "Par_LB_CollectParticle2OneLevel demo_env_production 0 False (Fin 0) False False False
       [demo_rank0, demo_rank1] = Inr [demo_rank0_collected, demo_rank1] \<and>
   \<not> DEBUG_PARTICLE demo_env_production \<and> 0 \<le> MAX_LEVEL demo_env_production \<and>
   bookkept demo_env_production 0 False (Fin 0) [demo_rank0, demo_rank1] 0 \<and>
   bookkept demo_env_production 0 False (Fin 0) [demo_rank0, demo_rank1] 1 \<and>
   (\<exists>gets checks.
      emap (\<lambda>s. counted s 0) [demo_rank0_collected, demo_rank1] = Inr gets \<and>
      emap (\<lambda>s. tracked demo_env_production s 0) [demo_rank0_collected, demo_rank1]
        = Inr checks \<and>
      sum_list gets = sum_list checks) \<and>
   emap (\<lambda>s. counted s 0) [demo_rank0_collected, demo_rank1] = Inr [5, 0] \<and>
   emap (\<lambda>s. tracked demo_env_production s 0) [demo_rank0_collected, demo_rank1]
     = Inr [4, 1]"
proof -
  have c: "Par_LB_CollectParticle2OneLevel demo_env_production 0 False (Fin 0) False False False
       [demo_rank0, demo_rank1] = Inr [demo_rank0_collected, demo_rank1]" by code_simp
  have d: "\<not> DEBUG_PARTICLE demo_env_production" and le: "0 \<le> MAX_LEVEL demo_env_production"
    by (simp_all add: demo_env_production_def demo_env_def)
  have b0: "bookkept demo_env_production 0 False (Fin 0) [demo_rank0, demo_rank1] 0" by code_simp
  have b1: "bookkept demo_env_production 0 False (Fin 0) [demo_rank0, demo_rank1] 1" by code_simp
  have bk: "\<forall>r < length [demo_rank0, demo_rank1].
      bookkept demo_env_production 0 False (Fin 0) [demo_rank0, demo_rank1] r"
    using b0 b1 by (auto simp: less_Suc_eq)
  have g: "emap (\<lambda>s. counted s 0) [demo_rank0_collected, demo_rank1] = Inr [5, 0]"
    by code_simp
  have h: "emap (\<lambda>s. tracked demo_env_production s 0) [demo_rank0_collected, demo_rank1]
     = Inr [4, 1]" by code_simp
  from collect_conservation [OF c le demo_collector_frame_production disjI2 [OF bk]]
  show ?thesis using c d le b0 b1 g h by simp
qed

section \<open>Properties of the collection\<close>

text \<open>
  C10. For a target level above the maximum level the call returns at once: the states
  of all ranks are returned as they were, whatever the four flags are; neither the checks
  of the diagnostic build nor the collection for the buffer patches is reached.
\<close>

theorem collect_above_max_level:
  "MAX_LEVEL E < FaLv \<Longrightarrow>
   Par_LB_CollectParticle2OneLevel E FaLv PredictPos TargetTime SibBufPatch FaSibBufPatch
     JustCountNPar ss = Inr ss"
  by (simp add: Par_LB_CollectParticle2OneLevel_def)

theorem collect_above_max_level_witness:
  "MAX_LEVEL demo_env < 2 \<and>
   Par_LB_CollectParticle2OneLevel demo_env 2 True (Fin 0) True True False [demo_collected_buffer]
     = Inr [demo_collected_buffer]"
proof -
  have h: "MAX_LEVEL demo_env < 2" by code_simp
  show ?thesis
    using collect_above_max_level [OF h, of True "Fin 0" True True False "[demo_collected_buffer]"] h
    by simp
qed

end
